theory Spec2Isabelle
  imports Main
begin

section \<open>Data model\<close>

text \<open>
  The rows of the two tables that \<^verbatim>\<open>environment.service.ts\<close> reads and writes.
  A nullable column is an \<open>option\<close>. The columns \<open>secret_key\<close> and \<open>public_key\<close> are
  options too, because \<^verbatim>\<open>activateSecretKey\<close> and \<^verbatim>\<open>activatePublicKey\<close> write the
  (nullable) pending value into them. The schema is not part of the sources: the store
  of this model accepts every value the code writes.
\<close>

record account =
  acc_id :: nat
  acc_uuid :: string
  acc_name :: string

record environment =
  env_id :: nat
  env_uuid :: string
  account_id :: nat
  name :: string
  secret_key :: "string option"
  secret_key_iv :: "string option"
  secret_key_tag :: "string option"
  secret_key_hashed :: "string option"
  pending_secret_key :: "string option"
  pending_secret_key_iv :: "string option"
  pending_secret_key_tag :: "string option"
  public_key :: "string option"
  pending_public_key :: "string option"
  callback_url :: "string option"
  webhook_url :: "string option"
  hmac_enabled :: bool
  hmac_key :: "string option"
  always_send_webhook :: bool
  send_auth_webhook :: bool
  slack_notifications :: bool

text \<open>
  What the module imports and does not define: \<^verbatim>\<open>isCloud\<close>, \<^verbatim>\<open>ENCRYPTION_KEY\<close>,
  \<^verbatim>\<open>process.env\<close> (an ordered list of variables), \<^verbatim>\<open>pbkdf2\<close> (here with the
  \<^verbatim>\<open>toString('base64')\<close> of its digest folded in) and the symmetric cipher behind
  the encryption manager. \<open>cipher_encrypt key plaintext\<close> gives ciphertext,
  initialization vector and authentication tag; \<open>cipher_decrypt key ciphertext iv tag\<close>
  gives the plaintext, or \<open>None\<close> when the tag does not verify. The vector that the
  cipher draws is part of \<open>cipher_encrypt\<close>; the statements below speak of decrypted
  values and of cipher output as such, not of a particular vector. \<open>toLowerCase\<close> is
  \<^verbatim>\<open>String.prototype.toLowerCase\<close> of the runtime, which lower-cases every cased
  letter; it is taken as it is.
\<close>

record config =
  isCloud :: bool
  ENCRYPTION_KEY :: "string option"
  process_env :: "(string \<times> string) list"
  pbkdf2 :: "string \<Rightarrow> string \<Rightarrow> nat \<Rightarrow> nat \<Rightarrow> string \<Rightarrow> string"
  cipher_encrypt :: "string \<Rightarrow> string \<Rightarrow> string \<times> string \<times> string"
  cipher_decrypt :: "string \<Rightarrow> string \<Rightarrow> string \<Rightarrow> string \<Rightarrow> string option"
  toLowerCase :: "string \<Rightarrow> string"

text \<open>
  The state the service works on: the two tables behind \<^verbatim>\<open>db.knex\<close>, whether the
  store answers at all, and the module-level \<^verbatim>\<open>hashLocalCache\<close>. Two fields only
  observe: \<open>pbkdf2_calls\<close> counts the calls of \<^verbatim>\<open>pbkdf2\<close>, and \<open>writes\<close> keeps the
  content of the environments table after each \<^verbatim>\<open>update\<close> or \<^verbatim>\<open>insert\<close> statement,
  oldest first.
\<close>

record state =
  reachable :: bool
  environments :: "environment list"
  accounts :: "account list"
  hashLocalCache :: "string \<rightharpoonup> string"
  pbkdf2_calls :: nat
  writes :: "environment list list"

text \<open>
  A rejected promise is a value: \<open>StoreUnavailable\<close> for a query that the store does
  not answer, \<open>DecryptionFailure\<close> for a tag that does not verify, \<open>TypeError\<close> for
  \<^verbatim>\<open>pbkdf2\<close> called on \<^verbatim>\<open>null\<close>.
\<close>

datatype error = StoreUnavailable | DecryptionFailure | TypeError

datatype opts = PublicKey string | SecretKey string | AccountEnv nat string

section \<open>The query builder\<close>

text \<open>\<^verbatim>\<open>select(...).from(TABLE).where(...)\<close>: the matching rows, in table order.\<close>

definition knex_select :: "(environment \<Rightarrow> bool) \<Rightarrow> state \<Rightarrow> error + environment list" where
  "knex_select p s =
     (if reachable s then Inr (filter p (environments s)) else Inl StoreUnavailable)"

text \<open>\<^verbatim>\<open>from(TABLE).where(...).update(...)\<close>: every matching row is rewritten.\<close>

definition knex_update ::
  "(environment \<Rightarrow> bool) \<Rightarrow> (environment \<Rightarrow> environment) \<Rightarrow> state \<Rightarrow> (error + unit) \<times> state" where
  "knex_update p upd s =
     (if reachable s then
        (let rows = map (\<lambda>r. if p r then upd r else r) (environments s)
         in (Inr (), s\<lparr>environments := rows, writes := writes s @ [rows]\<rparr>))
      else (Inl StoreUnavailable, s))"

text \<open>
  \<^verbatim>\<open>from(TABLE).insert({account_id, name}).returning('id')\<close>. The columns that the
  statement does not give are filled in by the store; \<open>defaults\<close> is the row it fills in.
\<close>

definition knex_insert :: "environment \<Rightarrow> nat \<Rightarrow> string \<Rightarrow> state \<Rightarrow> (error + nat list) \<times> state" where
  "knex_insert defaults accountId environment s =
     (if reachable s then
        (let rows = environments s @ [defaults\<lparr>account_id := accountId, name := environment\<rparr>]
         in (Inr [env_id defaults], s\<lparr>environments := rows, writes := writes s @ [rows]\<rparr>))
      else (Inl StoreUnavailable, s))"

text \<open>
  \<^verbatim>\<open>from(TABLE).join('_nango_accounts', '_nango_accounts.id', '_nango_environments.account_id')\<close>:
  each environment row with each account row it belongs to.
\<close>

definition joined :: "state \<Rightarrow> (account \<times> environment) list" where
  "joined s =
     concat (map (\<lambda>e. map (\<lambda>a. (a, e)) (filter (\<lambda>a. acc_id a = account_id e) (accounts s)))
                 (environments s))"

definition knex_join_first ::
  "(environment \<Rightarrow> bool) \<Rightarrow> state \<Rightarrow> error + (account \<times> environment) option" where
  "knex_join_first p s =
     (if reachable s then Inr (find (\<lambda>(a, e). p e) (joined s)) else Inl StoreUnavailable)"

section \<open>Envelope crypto\<close>

text \<open>\<^verbatim>\<open>!ENCRYPTION_KEY\<close> holds for \<^verbatim>\<open>undefined\<close> and for the empty string.\<close>

definition master_key :: "config \<Rightarrow> string option" where
  "master_key cfg =
     (case ENCRYPTION_KEY cfg of None \<Rightarrow> None | Some k \<Rightarrow> if k = [] then None else Some k)"

text \<open>
  \<^verbatim>\<open>hashSecretKey\<close>. The callers pass a value that can be \<^verbatim>\<open>null\<close> at run time
  (\<^verbatim>\<open>decrypted.pending_secret_key!\<close>), so the argument is an option: without a key it
  is returned as it is, with a key \<^verbatim>\<open>pbkdf2\<close> rejects it.
\<close>

definition hashSecretKey :: "config \<Rightarrow> string option \<Rightarrow> state \<Rightarrow> (error + string option) \<times> state" where
  "hashSecretKey cfg key s =
     (case master_key cfg of
        None \<Rightarrow> (Inr key, s)
      | Some k \<Rightarrow>
          (case key of
             None \<Rightarrow> (Inl TypeError, s)
           | Some p \<Rightarrow> (Inr (Some (pbkdf2 cfg p k 310000 32 ''sha256'')),
                        s\<lparr>pbkdf2_calls := Suc (pbkdf2_calls s)\<rparr>)))"

text \<open>The value \<^verbatim>\<open>hashSecretKey\<close> returns for a string, without the bookkeeping.\<close>

definition hash_value :: "config \<Rightarrow> string \<Rightarrow> string" where
  "hash_value cfg p =
     (case master_key cfg of None \<Rightarrow> p | Some k \<Rightarrow> pbkdf2 cfg p k 310000 32 ''sha256'')"

text \<open>
  Modelled from the spec: \<^verbatim>\<open>encryptionManager.encryptEnvironment\<close> lives in
  \<^verbatim>\<open>utils/encryption.manager.js\<close>, which is not among the sources. The spec (4.1):
  it encrypts the designated sensitive fields (secret key, pending secret key) with a
  symmetric scheme keyed by the process-wide master key, and each encrypted field
  carries its own initialization vector and authentication tag. An absent pending key
  has nothing to encrypt. The spec does not say what happens without a master key;
  \<^verbatim>\<open>hashSecretKey\<close> shows that the key can be unset, and the model then leaves the
  record as it is.
\<close>

definition encrypt_secret :: "config \<Rightarrow> string \<Rightarrow> environment \<Rightarrow> environment" where
  "encrypt_secret cfg k e =
     (case secret_key e of
        None \<Rightarrow> e
      | Some p \<Rightarrow>
          (case cipher_encrypt cfg k p of
             (c, iv, tag) \<Rightarrow>
               e\<lparr>secret_key := Some c, secret_key_iv := Some iv, secret_key_tag := Some tag\<rparr>))"

text \<open>
  Modelled from the spec: the same for the pending secret key, the second sensitive
  field of \<^verbatim>\<open>encryptEnvironment\<close> (missing from the sources, spec 4.1); an absent
  pending key has nothing to encrypt.
\<close>

definition encrypt_pending :: "config \<Rightarrow> string \<Rightarrow> environment \<Rightarrow> environment" where
  "encrypt_pending cfg k e =
     (case pending_secret_key e of
        None \<Rightarrow> e
      | Some p \<Rightarrow>
          (case cipher_encrypt cfg k p of
             (c, iv, tag) \<Rightarrow>
               e\<lparr>pending_secret_key := Some c, pending_secret_key_iv := Some iv,
                 pending_secret_key_tag := Some tag\<rparr>))"

text \<open>
  Modelled from the spec: \<^verbatim>\<open>encryptionManager.encryptEnvironment\<close> itself (missing
  from the sources, spec 4.1): both sensitive fields, each under the master key.
\<close>

definition encryptEnvironment :: "config \<Rightarrow> environment \<Rightarrow> environment" where
  "encryptEnvironment cfg e =
     (case master_key cfg of
        None \<Rightarrow> e
      | Some k \<Rightarrow> encrypt_pending cfg k (encrypt_secret cfg k e))"

text \<open>
  Modelled from the spec: \<^verbatim>\<open>encryptionManager.decryptEnvironment\<close>, from the same
  missing file. The spec (4.1, 7): the inverse of the encryption; it fails closed when
  the authentication tag does not verify, as a hard failure, and never hands out the
  ciphertext as plaintext. A field is encrypted when it carries its vector and its tag;
  a field without them (the secret the store generates on insert, which
  \<^verbatim>\<open>createEnvironment\<close> reads through \<^verbatim>\<open>getById\<close> before the first encryption) is
  returned as stored.
\<close>

definition decrypt_field ::
  "config \<Rightarrow> string \<Rightarrow> string option \<Rightarrow> string option \<Rightarrow> string option \<Rightarrow> error + string option" where
  "decrypt_field cfg k v iv tag =
     (case v of
        None \<Rightarrow> Inr None
      | Some c \<Rightarrow>
          (case iv of
             None \<Rightarrow> Inr (Some c)
           | Some i \<Rightarrow>
               (case tag of
                  None \<Rightarrow> Inr (Some c)
                | Some t \<Rightarrow>
                    (case cipher_decrypt cfg k c i t of
                       None \<Rightarrow> Inl DecryptionFailure
                     | Some p \<Rightarrow> Inr (Some p)))))"

text \<open>
  Modelled from the spec: \<^verbatim>\<open>encryptionManager.decryptEnvironment\<close> itself (missing
  from the sources, spec 4.1 and 7): both sensitive fields are decrypted, a failure of
  either is the failure of the whole; the other columns are returned as stored.
\<close>

definition decryptEnvironment :: "config \<Rightarrow> environment \<Rightarrow> error + environment" where
  "decryptEnvironment cfg e =
     (case master_key cfg of
        None \<Rightarrow> Inr e
      | Some k \<Rightarrow>
          (case decrypt_field cfg k (secret_key e) (secret_key_iv e) (secret_key_tag e) of
             Inl err \<Rightarrow> Inl err
           | Inr sk \<Rightarrow>
               (case decrypt_field cfg k (pending_secret_key e) (pending_secret_key_iv e)
                                         (pending_secret_key_tag e) of
                  Inl err \<Rightarrow> Inl err
                | Inr pk \<Rightarrow> Inr (e\<lparr>secret_key := sk, pending_secret_key := pk\<rparr>))))"

section \<open>Reads of the environment service\<close>

text \<open>
  The reads leave the state as it is, so they return a result only. A \<^verbatim>\<open>catch\<close>
  block reports the exception to the error manager (logging, not modelled) and returns
  its own value.
\<close>

definition getEnvironmentsByAccountId :: "nat \<Rightarrow> state \<Rightarrow> error + string list" where
  "getEnvironmentsByAccountId accountId s =
     (case knex_select (\<lambda>r. account_id r = accountId) s of
        Inl e \<Rightarrow> Inr []
      | Inr result \<Rightarrow> (if length result = 0 then Inr [] else Inr (map name result)))"

definition getById :: "config \<Rightarrow> nat \<Rightarrow> state \<Rightarrow> error + environment option" where
  "getById cfg i s =
     (case knex_select (\<lambda>r. env_id r = i) s of
        Inl e \<Rightarrow> Inr None
      | Inr result \<Rightarrow>
          (case result of
             [] \<Rightarrow> Inr None
           | r # rest \<Rightarrow>
               (case decryptEnvironment cfg r of
                  Inl e \<Rightarrow> Inr None
                | Inr d \<Rightarrow> Inr (Some d))))"

definition getRawById :: "nat \<Rightarrow> state \<Rightarrow> error + environment option" where
  "getRawById i s =
     (case knex_select (\<lambda>r. env_id r = i) s of
        Inl e \<Rightarrow> Inr None
      | Inr result \<Rightarrow> (case result of [] \<Rightarrow> Inr None | r # rest \<Rightarrow> Inr (Some r)))"

definition getByEnvironmentName :: "config \<Rightarrow> nat \<Rightarrow> string \<Rightarrow> state \<Rightarrow> error + environment option" where
  "getByEnvironmentName cfg accountId nm s =
     (case knex_select (\<lambda>r. account_id r = accountId \<and> name r = nm) s of
        Inl e \<Rightarrow> Inl e
      | Inr result \<Rightarrow>
          (case result of
             [] \<Rightarrow> Inr None
           | r # rest \<Rightarrow>
               (case decryptEnvironment cfg r of
                  Inl e \<Rightarrow> Inl e
                | Inr d \<Rightarrow> Inr (Some d))))"

section \<open>Credential resolution\<close>

text \<open>
  \<^verbatim>\<open>hashLocalCache.get(opts.secretKey) || (await hashSecretKey(opts.secretKey))\<close>:
  a missing entry and an empty string are both falsy.
\<close>

definition cached_or_hashed :: "config \<Rightarrow> string \<Rightarrow> state \<Rightarrow> (error + string option) \<times> state" where
  "cached_or_hashed cfg secretKey s =
     (case hashLocalCache s secretKey of
        None \<Rightarrow> hashSecretKey cfg (Some secretKey) s
      | Some h \<Rightarrow> if h = [] then hashSecretKey cfg (Some secretKey) s else (Inr (Some h), s))"

text \<open>\<^verbatim>\<open>if (hash && 'secretKey' in opts) hashLocalCache.set(opts.secretKey, hash)\<close>.\<close>

definition store_hash :: "string \<Rightarrow> string option \<Rightarrow> state \<Rightarrow> state" where
  "store_hash secretKey hash s =
     (case hash of
        None \<Rightarrow> s
      | Some h \<Rightarrow>
          if h = [] then s else s\<lparr>hashLocalCache := (hashLocalCache s)(secretKey \<mapsto> h)\<rparr>)"

text \<open>The end of \<^verbatim>\<open>getAccountAndEnvironment\<close>: nothing found, or the decrypted row.\<close>

definition decrypt_found ::
  "config \<Rightarrow> (account \<times> environment) option \<Rightarrow> error + (account \<times> environment) option" where
  "decrypt_found cfg res =
     (case res of
        None \<Rightarrow> Inr None
      | Some (a, e) \<Rightarrow>
          (case decryptEnvironment cfg e of
             Inl err \<Rightarrow> Inl err
           | Inr d \<Rightarrow> Inr (Some (a, d))))"

definition getAccountAndEnvironment ::
  "config \<Rightarrow> opts \<Rightarrow> state \<Rightarrow> (error + (account \<times> environment) option) \<times> state" where
  "getAccountAndEnvironment cfg opts s =
     (case opts of
        SecretKey secretKey \<Rightarrow>
          (case cached_or_hashed cfg secretKey s of
             (Inl err, s1) \<Rightarrow> (Inl err, s1)
           | (Inr hash, s1) \<Rightarrow>
               (case knex_join_first (\<lambda>e. secret_key_hashed e = hash) s1 of
                  Inl err \<Rightarrow> (Inl err, s1)
                | Inr None \<Rightarrow> (Inr None, s1)
                | Inr (Some res) \<Rightarrow> (decrypt_found cfg (Some res), store_hash secretKey hash s1)))
      | PublicKey publicKey \<Rightarrow>
          (case knex_join_first (\<lambda>e. public_key e = Some publicKey) s of
             Inl err \<Rightarrow> (Inl err, s)
           | Inr res \<Rightarrow> (decrypt_found cfg res, s))
      | AccountEnv accountId envName \<Rightarrow>
          (case knex_join_first (\<lambda>e. account_id e = accountId \<and> name e = envName) s of
             Inl err \<Rightarrow> (Inl err, s)
           | Inr res \<Rightarrow> (decrypt_found cfg res, s)))"

text \<open>\<^verbatim>\<open>key.startsWith(p)\<close>, and \<^verbatim>\<open>key.replace(p, '')\<close>, which drops the first occurrence.\<close>

definition startsWith :: "string \<Rightarrow> string \<Rightarrow> bool" where
  "startsWith p key = (take (length p) key = p)"

fun replace_first :: "string \<Rightarrow> string \<Rightarrow> string" where
  "replace_first p [] = []"
| "replace_first p (c # cs) =
     (if startsWith p (c # cs) then drop (length p) (c # cs) else c # replace_first p cs)"

text \<open>\<^verbatim>\<open>Object.keys(process.env)\<close> and \<^verbatim>\<open>process.env[key]\<close>.\<close>

definition env_keys :: "config \<Rightarrow> string list" where
  "env_keys cfg = map fst (process_env cfg)"

definition env_value :: "config \<Rightarrow> string \<Rightarrow> string option" where
  "env_value cfg key = map_of (process_env cfg) key"

text \<open>
  \<^verbatim>\<open>db.knex.select('account_id').from(TABLE).where({ name: envName }).first()\<close>,
  then the lookup by account and name: what both override loops do once a variable
  holds the presented key.
\<close>

definition resolve_override ::
  "config \<Rightarrow> string \<Rightarrow> state \<Rightarrow> (error + (account \<times> environment) option) \<times> state" where
  "resolve_override cfg envName s =
     (case knex_select (\<lambda>r. name r = envName) s of
        Inl err \<Rightarrow> (Inl err, s)
      | Inr [] \<Rightarrow> (Inr None, s)
      | Inr (env # rest) \<Rightarrow> getAccountAndEnvironment cfg (AccountEnv (account_id env) envName) s)"

text \<open>
  The \<^verbatim>\<open>for\<close> loop over the variables: \<open>None\<close> when the loop ends without a
  \<^verbatim>\<open>return\<close>, otherwise what it returns.
\<close>

fun scan_variables ::
  "config \<Rightarrow> string \<Rightarrow> string \<Rightarrow> string list \<Rightarrow> state
     \<Rightarrow> ((error + (account \<times> environment) option) \<times> state) option" where
  "scan_variables cfg p key [] s = None"
| "scan_variables cfg p key (environmentVariable # vars) s =
     (if env_value cfg environmentVariable \<noteq> Some key then scan_variables cfg p key vars s
      else Some (resolve_override cfg (toLowerCase cfg (replace_first p environmentVariable)) s))"

definition getAccountAndEnvironmentBySecretKey ::
  "config \<Rightarrow> string \<Rightarrow> state \<Rightarrow> (error + (account \<times> environment) option) \<times> state" where
  "getAccountAndEnvironmentBySecretKey cfg secretKey s =
     (if \<not> isCloud cfg then
        (case scan_variables cfg ''NANGO_SECRET_KEY_'' secretKey
                (filter (startsWith ''NANGO_SECRET_KEY_'') (env_keys cfg)) s of
           Some r \<Rightarrow> r
         | None \<Rightarrow> getAccountAndEnvironment cfg (SecretKey secretKey) s)
      else getAccountAndEnvironment cfg (SecretKey secretKey) s)"

definition getAccountAndEnvironmentByPublicKey ::
  "config \<Rightarrow> string \<Rightarrow> state \<Rightarrow> (error + (account \<times> environment) option) \<times> state" where
  "getAccountAndEnvironmentByPublicKey cfg publicKey s =
     (if \<not> isCloud cfg then
        (case scan_variables cfg ''NANGO_PUBLIC_KEY_'' publicKey
                (filter (startsWith ''NANGO_PUBLIC_KEY_'') (env_keys cfg)) s of
           Some r \<Rightarrow> r
         | None \<Rightarrow> getAccountAndEnvironment cfg (PublicKey publicKey) s)
      else getAccountAndEnvironment cfg (PublicKey publicKey) s)"

section \<open>Creation\<close>

text \<open>
  \<^verbatim>\<open>createEnvironment\<close>: the insert, then the second write with the hash and the
  encrypted fields. \<open>defaults\<close> is the row the store fills in on insert.
\<close>

definition createEnvironment ::
  "config \<Rightarrow> environment \<Rightarrow> nat \<Rightarrow> string \<Rightarrow> state \<Rightarrow> (error + environment option) \<times> state" where
  "createEnvironment cfg defaults accountId environment s =
     (case knex_insert defaults accountId environment s of
        (Inl err, s1) \<Rightarrow> (Inl err, s1)
      | (Inr result, s1) \<Rightarrow>
          (case result of
             [environmentId] \<Rightarrow>
               (case getById cfg environmentId s1 of
                  Inl err \<Rightarrow> (Inl err, s1)
                | Inr None \<Rightarrow> (Inr None, s1)
                | Inr (Some env) \<Rightarrow>
                    (case hashSecretKey cfg (secret_key env) s1 of
                       (Inl err, s2) \<Rightarrow> (Inl err, s2)
                     | (Inr hash, s2) \<Rightarrow>
                         (let encryptedEnvironment =
                                encryptEnvironment cfg (env\<lparr>secret_key_hashed := hash\<rparr>)
                          in (case knex_update (\<lambda>r. env_id r = environmentId)
                                               (\<lambda>r. encryptedEnvironment) s2 of
                                (Inl err, s3) \<Rightarrow> (Inl err, s3)
                              | (Inr u, s3) \<Rightarrow>
                                  (case decryptEnvironment cfg encryptedEnvironment of
                                     Inl err \<Rightarrow> (Inl err, s3)
                                   | Inr d \<Rightarrow> (Inr (Some d), s3))))))
           | _ \<Rightarrow> (Inr None, s1)))"

section \<open>Key rotation\<close>

text \<open>
  \<open>fresh\<close> is the value \<^verbatim>\<open>uuid.v4()\<close> returns. \<^verbatim>\<open>rotateSecretKey\<close> writes twice:
  first the new pending key alone, then the whole record as the encryption manager
  returns it.
\<close>

definition rotateSecretKey ::
  "config \<Rightarrow> string \<Rightarrow> nat \<Rightarrow> state \<Rightarrow> (error + string option) \<times> state" where
  "rotateSecretKey cfg fresh i s =
     (case getById cfg i s of
        Inl err \<Rightarrow> (Inl err, s)
      | Inr None \<Rightarrow> (Inr None, s)
      | Inr (Some env) \<Rightarrow>
          (case knex_update (\<lambda>r. env_id r = i) (\<lambda>r. r\<lparr>pending_secret_key := Some fresh\<rparr>) s of
             (Inl err, s1) \<Rightarrow> (Inl err, s1)
           | (Inr u, s1) \<Rightarrow>
               (let encryptedEnvironment =
                      encryptEnvironment cfg (env\<lparr>pending_secret_key := Some fresh\<rparr>)
                in (case knex_update (\<lambda>r. env_id r = i) (\<lambda>r. encryptedEnvironment) s1 of
                      (Inl err, s2) \<Rightarrow> (Inl err, s2)
                    | (Inr u2, s2) \<Rightarrow> (Inr (Some fresh), s2)))))"

definition rotatePublicKey ::
  "string \<Rightarrow> nat \<Rightarrow> state \<Rightarrow> (error + string option) \<times> state" where
  "rotatePublicKey fresh i s =
     (case knex_update (\<lambda>r. env_id r = i) (\<lambda>r. r\<lparr>pending_public_key := Some fresh\<rparr>) s of
        (Inl err, s1) \<Rightarrow> (Inl err, s1)
      | (Inr u, s1) \<Rightarrow> (Inr (Some fresh), s1))"

definition revertSecretKey ::
  "config \<Rightarrow> nat \<Rightarrow> state \<Rightarrow> (error + string option) \<times> state" where
  "revertSecretKey cfg i s =
     (case getById cfg i s of
        Inl err \<Rightarrow> (Inl err, s)
      | Inr None \<Rightarrow> (Inr None, s)
      | Inr (Some env) \<Rightarrow>
          (case knex_update (\<lambda>r. env_id r = i)
                  (\<lambda>r. r\<lparr>pending_secret_key := None, pending_secret_key_iv := None,
                         pending_secret_key_tag := None\<rparr>) s of
             (Inl err, s1) \<Rightarrow> (Inl err, s1)
           | (Inr u, s1) \<Rightarrow> (Inr (secret_key env), s1)))"

definition revertPublicKey ::
  "config \<Rightarrow> nat \<Rightarrow> state \<Rightarrow> (error + string option) \<times> state" where
  "revertPublicKey cfg i s =
     (case getById cfg i s of
        Inl err \<Rightarrow> (Inl err, s)
      | Inr None \<Rightarrow> (Inr None, s)
      | Inr (Some env) \<Rightarrow>
          (case knex_update (\<lambda>r. env_id r = i) (\<lambda>r. r\<lparr>pending_public_key := None\<rparr>) s of
             (Inl err, s1) \<Rightarrow> (Inl err, s1)
           | (Inr u, s1) \<Rightarrow> (Inr (public_key env), s1)))"

text \<open>
  \<^verbatim>\<open>activateSecretKey\<close> reads the row as stored, so the ciphertext of the pending key
  moves into the active columns with its vector and tag; the hash is derived from the
  decrypted pending key before the single \<^verbatim>\<open>update\<close> is sent.
\<close>

definition activateSecretKey :: "config \<Rightarrow> nat \<Rightarrow> state \<Rightarrow> (error + bool) \<times> state" where
  "activateSecretKey cfg i s =
     (case getRawById i s of
        Inl err \<Rightarrow> (Inl err, s)
      | Inr None \<Rightarrow> (Inr False, s)
      | Inr (Some env) \<Rightarrow>
          (case decryptEnvironment cfg env of
             Inl err \<Rightarrow> (Inl err, s)
           | Inr decrypted \<Rightarrow>
               (case hashSecretKey cfg (pending_secret_key decrypted) s of
                  (Inl err, s1) \<Rightarrow> (Inl err, s1)
                | (Inr hash, s1) \<Rightarrow>
                    (case knex_update (\<lambda>r. env_id r = i)
                            (\<lambda>r. r\<lparr>secret_key := pending_secret_key env,
                                   secret_key_iv := pending_secret_key_iv env,
                                   secret_key_tag := pending_secret_key_tag env,
                                   secret_key_hashed := hash,
                                   pending_secret_key := None,
                                   pending_secret_key_iv := None,
                                   pending_secret_key_tag := None\<rparr>) s1 of
                       (Inl err, s2) \<Rightarrow> (Inl err, s2)
                     | (Inr u, s2) \<Rightarrow>
                         (case getById cfg i s2 of
                            Inl err \<Rightarrow> (Inl err, s2)
                          | Inr None \<Rightarrow> (Inr False, s2)
                          | Inr (Some updatedEnvironment) \<Rightarrow> (Inr True, s2))))))"

definition activatePublicKey :: "config \<Rightarrow> nat \<Rightarrow> state \<Rightarrow> (error + bool) \<times> state" where
  "activatePublicKey cfg i s =
     (case getById cfg i s of
        Inl err \<Rightarrow> (Inl err, s)
      | Inr None \<Rightarrow> (Inr False, s)
      | Inr (Some env) \<Rightarrow>
          (case knex_update (\<lambda>r. env_id r = i)
                  (\<lambda>r. r\<lparr>public_key := pending_public_key env, pending_public_key := None\<rparr>) s of
             (Inl err, s1) \<Rightarrow> (Inl err, s1)
           | (Inr u, s1) \<Rightarrow> (Inr True, s1)))"

definition rotateKey ::
  "config \<Rightarrow> string \<Rightarrow> nat \<Rightarrow> string \<Rightarrow> state \<Rightarrow> (error + string option) \<times> state" where
  "rotateKey cfg fresh i type s =
     (if type = ''secret'' then rotateSecretKey cfg fresh i s
      else if type = ''public'' then rotatePublicKey fresh i s
      else (Inr None, s))"

definition revertKey :: "config \<Rightarrow> nat \<Rightarrow> string \<Rightarrow> state \<Rightarrow> (error + string option) \<times> state" where
  "revertKey cfg i type s =
     (if type = ''secret'' then revertSecretKey cfg i s
      else if type = ''public'' then revertPublicKey cfg i s
      else (Inr None, s))"

definition activateKey :: "config \<Rightarrow> nat \<Rightarrow> string \<Rightarrow> state \<Rightarrow> (error + bool) \<times> state" where
  "activateKey cfg i type s =
     (if type = ''secret'' then activateSecretKey cfg i s
      else if type = ''public'' then activatePublicKey cfg i s
      else (Inr False, s))"

section \<open>Assumptions on the imported parts, and example data\<close>

text \<open>Decrypting what the cipher produced under the master key gives the plaintext back.\<close>

definition cipher_roundtrip :: "config \<Rightarrow> bool" where
  "cipher_roundtrip cfg =
     (\<forall>k p c iv tag. master_key cfg = Some k \<longrightarrow> cipher_encrypt cfg k p = (c, iv, tag)
        \<longrightarrow> cipher_decrypt cfg k c iv tag = Some p)"

text \<open>
  The override loop finds nothing for a key: the service runs in the cloud, or no
  variable with the prefix holds the key.
\<close>

definition no_override :: "config \<Rightarrow> string \<Rightarrow> string \<Rightarrow> bool" where
  "no_override cfg p key =
     (isCloud cfg \<or>
      (\<forall>v \<in> set (filter (startsWith p) (env_keys cfg)). env_value cfg v \<noteq> Some key))"

text \<open>
  The hash cache holds nothing but hashes of its keys. This is true of the empty cache
  and kept by every resolution.
\<close>

definition cache_sound :: "config \<Rightarrow> state \<Rightarrow> bool" where
  "cache_sound cfg s = (\<forall>k h. hashLocalCache s k = Some h \<longrightarrow> h = hash_value cfg k)"

text \<open>A stored field triple is what the cipher gives for a plaintext.\<close>

definition sealed ::
  "config \<Rightarrow> string \<Rightarrow> string \<Rightarrow> string option \<Rightarrow> string option \<Rightarrow> string option \<Rightarrow> bool" where
  "sealed cfg k p v iv tag =
     (case cipher_encrypt cfg k p of (c, i, t) \<Rightarrow> v = Some c \<and> iv = Some i \<and> tag = Some t)"

text \<open>
  A row is encrypted at rest under the key when its secret key and its pending secret
  key are absent or stored as the cipher produced them, each with its own vector and
  tag.
\<close>

definition at_rest :: "config \<Rightarrow> string \<Rightarrow> environment \<Rightarrow> bool" where
  "at_rest cfg k r =
     ((secret_key r = None \<or>
        (\<exists>p. sealed cfg k p (secret_key r) (secret_key_iv r) (secret_key_tag r)))
      \<and> (pending_secret_key r = None \<or>
        (\<exists>p. sealed cfg k p (pending_secret_key r) (pending_secret_key_iv r)
                (pending_secret_key_tag r))))"

text \<open>
  A small cipher and derivation for the examples: the ciphertext is the reversed
  plaintext, the tag binds key and plaintext, the hash is never empty.
\<close>

definition toy_encrypt :: "string \<Rightarrow> string \<Rightarrow> string \<times> string \<times> string" where
  "toy_encrypt k p = (rev p, ''iv'', k @ p)"

definition toy_decrypt :: "string \<Rightarrow> string \<Rightarrow> string \<Rightarrow> string \<Rightarrow> string option" where
  "toy_decrypt k c iv tag = (if tag = k @ rev c then Some (rev c) else None)"

definition toy_pbkdf2 :: "string \<Rightarrow> string \<Rightarrow> nat \<Rightarrow> nat \<Rightarrow> string \<Rightarrow> string" where
  "toy_pbkdf2 p k iterations keylen digest = CHR ''#'' # p"

text \<open>
  Lower-casing for the examples, whose variable names are ASCII: on the letters A to Z
  it is what \<^verbatim>\<open>toLowerCase\<close> does, and it leaves every other byte as it is.
\<close>

definition lower_char :: "char \<Rightarrow> char" where
  "lower_char c =
     (case map_of (zip ''ABCDEFGHIJKLMNOPQRSTUVWXYZ'' ''abcdefghijklmnopqrstuvwxyz'') c of
        None \<Rightarrow> c
      | Some l \<Rightarrow> l)"

definition ascii_lower :: "string \<Rightarrow> string" where
  "ascii_lower str = map lower_char str"

definition cloud_config :: config where
  "cloud_config =
     \<lparr>isCloud = True, ENCRYPTION_KEY = Some ''mk'', process_env = [],
      pbkdf2 = toy_pbkdf2, cipher_encrypt = toy_encrypt, cipher_decrypt = toy_decrypt,
      toLowerCase = ascii_lower\<rparr>"

definition selfhosted_config :: config where
  "selfhosted_config =
     \<lparr>isCloud = False, ENCRYPTION_KEY = Some ''mk'',
      process_env = [(''HOME'', ''abc123''), (''NANGO_SECRET_KEY_DEV'', ''abc123''),
                     (''NANGO_SECRET_KEY_PROD'', ''abc123'')],
      pbkdf2 = toy_pbkdf2, cipher_encrypt = toy_encrypt, cipher_decrypt = toy_decrypt,
      toLowerCase = ascii_lower\<rparr>"

definition account7 :: account where
  "account7 = \<lparr>acc_id = 7, acc_uuid = ''a7'', acc_name = ''seven''\<rparr>"

definition account8 :: account where
  "account8 = \<lparr>acc_id = 8, acc_uuid = ''a8'', acc_name = ''eight''\<rparr>"

text \<open>A row as stored under the key \<open>''mk''\<close>: the active secret is \<open>''old''\<close>.\<close>

definition dev_row :: environment where
  "dev_row =
     \<lparr>env_id = 1, env_uuid = ''e1'', account_id = 7, name = ''dev'',
      secret_key = Some ''dlo'', secret_key_iv = Some ''iv'', secret_key_tag = Some ''mkold'',
      secret_key_hashed = Some ''#old'',
      pending_secret_key = None, pending_secret_key_iv = None, pending_secret_key_tag = None,
      public_key = Some ''pk1'', pending_public_key = None,
      callback_url = None, webhook_url = None, hmac_enabled = False, hmac_key = None,
      always_send_webhook = False, send_auth_webhook = False, slack_notifications = False\<rparr>"

definition prod_row :: environment where
  "prod_row = dev_row\<lparr>env_id := 2, env_uuid := ''e2'', account_id := 8, name := ''prod'',
                      secret_key_hashed := Some ''#other'', public_key := Some ''pk2''\<rparr>"

definition store7 :: state where
  "store7 =
     \<lparr>reachable = True, environments = [dev_row, prod_row], accounts = [account7, account8],
      hashLocalCache = Map.empty, pbkdf2_calls = 0, writes = []\<rparr>"

text \<open>The active secret of environment 1, set as the override for the name dev.\<close>

definition override_config :: config where
  "override_config = selfhosted_config\<lparr>process_env := [(''NANGO_SECRET_KEY_DEV'', ''old'')]\<rparr>"

text \<open>Two variables that hold the same key, the one for prod first.\<close>

definition prod_first_config :: config where
  "prod_first_config =
     selfhosted_config\<lparr>process_env := [(''NANGO_SECRET_KEY_PROD'', ''abc123''),
                                     (''NANGO_SECRET_KEY_DEV'', ''abc123'')]\<rparr>"

text \<open>The example store with the tag of the first row's secret replaced.\<close>

definition tampered_store :: state where
  "tampered_store =
     \<lparr>reachable = True, environments = [dev_row\<lparr>secret_key_tag := Some ''bad''\<rparr>, prod_row],
      accounts = [account7, account8], hashLocalCache = Map.empty, pbkdf2_calls = 0,
      writes = []\<rparr>"

text \<open>The same store with the row named dev owned by the other account.\<close>

definition store8 :: state where
  "store8 = store7\<lparr>environments := [dev_row\<lparr>account_id := 8\<rparr>, prod_row]\<rparr>"

section \<open>Unfolding sets\<close>

lemmas example_defs =
  cloud_config_def selfhosted_config_def account7_def account8_def dev_row_def prod_row_def
  store7_def store8_def toy_encrypt_def toy_decrypt_def toy_pbkdf2_def
  override_config_def prod_first_config_def tampered_store_def

lemmas query_defs = Let_def knex_select_def knex_update_def knex_insert_def knex_join_first_def joined_def

lemmas crypto_defs =
  master_key_def hashSecretKey_def encrypt_secret_def encrypt_pending_def encryptEnvironment_def
  decrypt_field_def decryptEnvironment_def

lemmas read_defs = getById_def getRawById_def getByEnvironmentName_def getEnvironmentsByAccountId_def

lemmas string_defs = startsWith_def env_keys_def env_value_def ascii_lower_def lower_char_def

lemmas resolver_defs =
  getAccountAndEnvironmentBySecretKey_def getAccountAndEnvironment_def cached_or_hashed_def
  store_hash_def decrypt_found_def resolve_override_def

section \<open>Store failures in the reads\<close>

lemma unreachable_lookup:
  assumes "\<not> reachable s"
  shows "fst (getAccountAndEnvironment cfg opts s) = Inl StoreUnavailable"
    and "hashLocalCache (snd (getAccountAndEnvironment cfg opts s)) = hashLocalCache s"
  using assms
  by (cases opts;
      auto simp: getAccountAndEnvironment_def knex_join_first_def cached_or_hashed_def
                 hashSecretKey_def
           split: option.splits)+

lemma unreachable_override:
  assumes "\<not> reachable s"
  shows "resolve_override cfg n s = (Inl StoreUnavailable, s)"
  using assms by (simp add: resolve_override_def knex_select_def)

lemma unreachable_scan:
  assumes "\<not> reachable s" and "scan_variables cfg p key vars s = Some r"
  shows "r = (Inl StoreUnavailable, s)"
  using assms by (induction vars) (auto simp: unreachable_override split: if_splits)

text \<open>
  C9, as the code has it. When the store does not answer, the reads with a
  \<^verbatim>\<open>try\<close>/\<^verbatim>\<open>catch\<close> (\<open>getById\<close>, \<open>getRawById\<close>, \<open>getEnvironmentsByAccountId\<close>) absorb
  the failure and return the value they return for no match: absent, or the empty
  sequence. The reads without one pass the failure on to the caller as an error that
  is not the absent result: \<open>getByEnvironmentName\<close>, \<open>getAccountAndEnvironment\<close> by
  public key, by account and name and by secret key, and the two resolvers; the lookups
  by public key and by account and name return the state untouched, and the resolver by
  secret key leaves the hash cache as it was.
\<close>

theorem unreachable_store_reads:
  assumes "\<not> reachable s"
  shows "getById cfg i s = Inr None \<and> getRawById i s = Inr None
       \<and> getEnvironmentsByAccountId a s = Inr []
       \<and> getByEnvironmentName cfg a nm s = Inl StoreUnavailable
       \<and> getAccountAndEnvironment cfg (PublicKey k) s = (Inl StoreUnavailable, s)
       \<and> getAccountAndEnvironment cfg (AccountEnv a nm) s = (Inl StoreUnavailable, s)
       \<and> fst (getAccountAndEnvironment cfg (SecretKey k) s) = Inl StoreUnavailable
       \<and> fst (getAccountAndEnvironmentBySecretKey cfg k s) = Inl StoreUnavailable
       \<and> hashLocalCache (snd (getAccountAndEnvironmentBySecretKey cfg k s)) = hashLocalCache s
       \<and> fst (getAccountAndEnvironmentByPublicKey cfg k s) = Inl StoreUnavailable"
proof -
  have reads: "getById cfg i s = Inr None \<and> getRawById i s = Inr None
       \<and> getEnvironmentsByAccountId a s = Inr []
       \<and> getByEnvironmentName cfg a nm s = Inl StoreUnavailable
       \<and> getAccountAndEnvironment cfg (PublicKey k) s = (Inl StoreUnavailable, s)
       \<and> getAccountAndEnvironment cfg (AccountEnv a nm) s = (Inl StoreUnavailable, s)"
    using assms
    by (simp add: read_defs knex_select_def knex_join_first_def getAccountAndEnvironment_def)
  have secret: "fst (getAccountAndEnvironmentBySecretKey cfg k s) = Inl StoreUnavailable
       \<and> hashLocalCache (snd (getAccountAndEnvironmentBySecretKey cfg k s)) = hashLocalCache s"
  proof (cases "\<not> isCloud cfg \<and> scan_variables cfg ''NANGO_SECRET_KEY_'' k
                  (filter (startsWith ''NANGO_SECRET_KEY_'') (env_keys cfg)) s \<noteq> None")
    case True
    then obtain r where sc: "scan_variables cfg ''NANGO_SECRET_KEY_'' k
                  (filter (startsWith ''NANGO_SECRET_KEY_'') (env_keys cfg)) s = Some r"
      by blast
    from unreachable_scan [OF assms sc] have "r = (Inl StoreUnavailable, s)" .
    with True sc show ?thesis by (simp add: getAccountAndEnvironmentBySecretKey_def)
  next
    case False
    then have "getAccountAndEnvironmentBySecretKey cfg k s
             = getAccountAndEnvironment cfg (SecretKey k) s"
      by (cases "isCloud cfg")
         (auto simp: getAccountAndEnvironmentBySecretKey_def split: option.splits)
    with unreachable_lookup [OF assms, of cfg "SecretKey k"] show ?thesis by simp
  qed
  have "public": "fst (getAccountAndEnvironmentByPublicKey cfg k s) = Inl StoreUnavailable"
  proof (cases "\<not> isCloud cfg \<and> scan_variables cfg ''NANGO_PUBLIC_KEY_'' k
                  (filter (startsWith ''NANGO_PUBLIC_KEY_'') (env_keys cfg)) s \<noteq> None")
    case True
    then obtain r where sc: "scan_variables cfg ''NANGO_PUBLIC_KEY_'' k
                  (filter (startsWith ''NANGO_PUBLIC_KEY_'') (env_keys cfg)) s = Some r"
      by blast
    from unreachable_scan [OF assms sc] have "r = (Inl StoreUnavailable, s)" .
    with True sc show ?thesis by (simp add: getAccountAndEnvironmentByPublicKey_def)
  next
    case False
    then have "getAccountAndEnvironmentByPublicKey cfg k s
             = getAccountAndEnvironment cfg (PublicKey k) s"
      by (cases "isCloud cfg")
         (auto simp: getAccountAndEnvironmentByPublicKey_def split: option.splits)
    with unreachable_lookup [OF assms, of cfg "PublicKey k"] show ?thesis by simp
  qed
  from reads secret "public" unreachable_lookup(1) [OF assms, of cfg "SecretKey k"]
  show ?thesis by simp
qed

text \<open>The theorem at the example store, switched off.\<close>

theorem unreachable_store_reads_witness:
  "\<not> reachable (store7\<lparr>reachable := False\<rparr>)
   \<and> getById cloud_config 1 (store7\<lparr>reachable := False\<rparr>) = Inr None
   \<and> getByEnvironmentName cloud_config 7 ''dev'' (store7\<lparr>reachable := False\<rparr>) = Inl StoreUnavailable
   \<and> fst (getAccountAndEnvironmentBySecretKey cloud_config ''old'' (store7\<lparr>reachable := False\<rparr>))
       = Inl StoreUnavailable"
  using unreachable_store_reads
          [of "store7\<lparr>reachable := False\<rparr>" cloud_config 1 7 "''dev''" "''old''"]
  by (simp add: store7_def)

text \<open>
  C9 as stated fails: \<open>getById\<close> on a store that does not answer returns absent, the
  answer it gives for an id without a row, and \<open>getEnvironmentsByAccountId\<close> returns the
  empty sequence although the account has an environment.
\<close>

theorem getById_absorbs_store_failure:
  "getById cloud_config 1 (store7\<lparr>reachable := False\<rparr>) = Inr None
   \<and> getById cloud_config 3 store7 = Inr None
   \<and> getEnvironmentsByAccountId 7 (store7\<lparr>reachable := False\<rparr>) = Inr []
   \<and> getEnvironmentsByAccountId 7 store7 = Inr [''dev'']"
  by (simp add: read_defs knex_select_def example_defs)

section \<open>Activation without a pending value\<close>

text \<open>
  C1 at environment 1, which has no pending key of either type. No branch of
  \<open>activateKey\<close> tests for a pending value. For the public key it returns true and the
  stored active public key becomes absent. For the secret key with a master key the
  call fails, state unchanged, but only because \<^verbatim>\<open>pbkdf2\<close> rejects the absent value;
  without a master key it returns true and the stored active secret and its hash become
  absent.
\<close>

theorem activate_without_pending_value:
  "getById cloud_config 1 store7 = Inr (Some (dev_row\<lparr>secret_key := Some ''old''\<rparr>))
   \<and> pending_public_key dev_row = None \<and> pending_secret_key dev_row = None
   \<and> public_key dev_row = Some ''pk1''
   \<and> fst (activateKey cloud_config 1 ''public'' store7) = Inr True
   \<and> map public_key (environments (snd (activateKey cloud_config 1 ''public'' store7)))
       = [None, Some ''pk2'']
   \<and> activateKey cloud_config 1 ''secret'' store7 = (Inl TypeError, store7)
   \<and> fst (activateKey (cloud_config\<lparr>ENCRYPTION_KEY := None\<rparr>) 1 ''secret'' store7) = Inr True
   \<and> map (\<lambda>r. (secret_key r, secret_key_hashed r))
         (environments (snd (activateKey (cloud_config\<lparr>ENCRYPTION_KEY := None\<rparr>) 1 ''secret'' store7)))
       = [(None, None), (Some ''dlo'', Some ''#other'')]"
  by (simp add: activateKey_def activatePublicKey_def activateSecretKey_def read_defs query_defs
                crypto_defs example_defs)

section \<open>Rotation of a missing environment\<close>

text \<open>
  C4 at an id without a row. \<open>rotateSecretKey\<close> looks the environment up and returns
  absent; \<open>rotatePublicKey\<close> has no lookup: its update matches no row, the table stays
  as it is, and the new value is returned as if it were pending.
\<close>

theorem rotate_public_key_of_missing_environment:
  "getById cloud_config 42 store7 = Inr None
   \<and> fst (rotateKey cloud_config ''new'' 42 ''secret'' store7) = Inr None
   \<and> fst (rotateKey cloud_config ''new'' 42 ''public'' store7) = Inr (Some ''new'')
   \<and> environments (snd (rotateKey cloud_config ''new'' 42 ''public'' store7)) = environments store7"
  by (simp add: rotateKey_def rotateSecretKey_def rotatePublicKey_def read_defs query_defs example_defs)

section \<open>The override loop\<close>

lemma replace_first_prefix: "startsWith p v \<Longrightarrow> replace_first p v = drop (length p) v"
  by (cases v) (auto simp: startsWith_def)

lemma scan_variables_find:
  "scan_variables cfg p key vars s =
     (case find (\<lambda>v. env_value cfg v = Some key) vars of
        None \<Rightarrow> None
      | Some v \<Rightarrow> Some (resolve_override cfg (toLowerCase cfg (replace_first p v)) s))"
  by (induction vars) auto

lemma find_in_filter: "find P (filter Q xs) = Some v \<Longrightarrow> Q v"
  by (auto simp: find_Some_iff dest: nth_mem)

lemma find_append_case:
  "find P (xs @ ys) = (case find P xs of None \<Rightarrow> find P ys | Some x \<Rightarrow> Some x)"
  by (induction xs) auto

lemma filter_eq_Nil_find: "filter P xs = [] \<longleftrightarrow> find P xs = None"
  by (induction xs) auto

lemma filter_eq_Cons_find: "filter P xs = x # rest \<Longrightarrow> find P xs = Some x"
  by (induction xs) (auto split: if_splits)

lemma find_joined_none:
  assumes "find (\<lambda>a. acc_id a = k) accs = None"
  shows "find (\<lambda>(a, e). account_id e = k \<and> Q e)
           (concat (map (\<lambda>e. map (\<lambda>a. (a, e)) (filter (\<lambda>a. acc_id a = account_id e) accs)) envs)) = None"
  using assms by (auto simp: find_None_iff)

lemma find_joined_first:
  assumes "find (\<lambda>x. name x = n) envs = Some first"
  shows "find (\<lambda>(a, e). account_id e = account_id first \<and> name e = n)
           (concat (map (\<lambda>e. map (\<lambda>a. (a, e)) (filter (\<lambda>a. acc_id a = account_id e) accs)) envs))
         = map_option (\<lambda>a. (a, first)) (find (\<lambda>a. acc_id a = account_id first) accs)"
  using assms
proof (induction envs)
  case Nil
  then show ?case by simp
next
  case (Cons e es)
  show ?case
  proof (cases "name e = n")
    case True
    then have fe: "first = e" using Cons.prems by simp
    have here: "find (\<lambda>(a, x). account_id x = account_id e \<and> name x = n)
             (map (\<lambda>a. (a, e)) (filter (\<lambda>a. acc_id a = account_id e) accs))
          = map_option (\<lambda>a. (a, e)) (find (\<lambda>a. acc_id a = account_id e) accs)"
      using True by (induction accs) auto
    show ?thesis
    proof (cases "find (\<lambda>a. acc_id a = account_id e) accs")
      case None
      from find_joined_none [OF None, of "\<lambda>x. name x = n" es] None here
      show ?thesis by (simp add: fe find_append_case)
    next
      case (Some a)
      with here show ?thesis by (simp add: fe find_append_case)
    qed
  next
    case False
    then have rest: "find (\<lambda>x. name x = n) es = Some first" using Cons.prems by simp
    have skip: "find (\<lambda>(a, x). account_id x = account_id first \<and> name x = n)
             (map (\<lambda>a. (a, e)) (filter (\<lambda>a. acc_id a = account_id e) accs)) = None"
      using False by (auto simp: find_None_iff)
    show ?thesis using Cons.IH [OF rest] skip by (simp add: find_append_case)
  qed
qed

lemma resolve_override_direct:
  assumes "reachable s"
  shows "resolve_override cfg n s =
     (case find (\<lambda>x. name x = n) (environments s) of
        None \<Rightarrow> Inr None
      | Some first \<Rightarrow>
          (case find (\<lambda>a. acc_id a = account_id first) (accounts s) of
             None \<Rightarrow> Inr None
           | Some a \<Rightarrow>
               (case decryptEnvironment cfg first of
                  Inl err \<Rightarrow> Inl err
                | Inr d \<Rightarrow> Inr (Some (a, d)))), s)"
proof (cases "find (\<lambda>x. name x = n) (environments s)")
  case None
  then have "filter (\<lambda>x. name x = n) (environments s) = []"
    by (simp add: filter_eq_Nil_find)
  with None assms show ?thesis
    by (simp add: resolve_override_def knex_select_def)
next
  case (Some first)
  then obtain rest where f: "filter (\<lambda>x. name x = n) (environments s) = first # rest"
    by (cases "filter (\<lambda>x. name x = n) (environments s)")
       (auto simp: filter_eq_Nil_find dest: filter_eq_Cons_find)
  show ?thesis
    using assms Some f find_joined_first [OF Some, of "accounts s"]
    by (auto simp: resolve_override_def knex_select_def getAccountAndEnvironment_def
             knex_join_first_def joined_def decrypt_found_def
             split: option.splits sum.splits)
qed

text \<open>
  C8, as the code has it. In self-hosted mode, for the first variable (in the order of
  the process configuration) with the secret-key prefix whose value is the presented
  key, the resolver lower-cases the rest of the variable's name and returns the first
  stored row of that name, decrypted, with the account that row belongs to: the
  account id is read from the row, no fixed account is involved. The result is absent
  when no row has the name or the row's account is missing. The state is returned as
  it was: no hash is derived and the hash cache is not touched.
\<close>

theorem override_resolves_first_named_row:
  assumes "\<not> isCloud cfg" and "reachable s"
    and "find (\<lambda>v. env_value cfg v = Some secretKey)
           (filter (startsWith ''NANGO_SECRET_KEY_'') (env_keys cfg)) = Some v"
  shows "getAccountAndEnvironmentBySecretKey cfg secretKey s =
     (case find (\<lambda>x. name x = toLowerCase cfg (drop (length ''NANGO_SECRET_KEY_'') v)) (environments s) of
        None \<Rightarrow> Inr None
      | Some first \<Rightarrow>
          (case find (\<lambda>a. acc_id a = account_id first) (accounts s) of
             None \<Rightarrow> Inr None
           | Some a \<Rightarrow>
               (case decryptEnvironment cfg first of
                  Inl err \<Rightarrow> Inl err
                | Inr d \<Rightarrow> Inr (Some (a, d)))), s)"
proof -
  have "startsWith ''NANGO_SECRET_KEY_'' v"
    using assms(3) by (rule find_in_filter)
  then have "replace_first ''NANGO_SECRET_KEY_'' v = drop (length ''NANGO_SECRET_KEY_'') v"
    by (rule replace_first_prefix)
  then show ?thesis
    using assms resolve_override_direct [OF assms(2), of cfg]
    by (simp add: getAccountAndEnvironmentBySecretKey_def scan_variables_find)
qed

text \<open>
  C10, as the code has it. In self-hosted mode with the store reachable, when the first
  variable with the prefix whose value is the presented key (the one the loop returns
  on) names an environment that has no row, the resolver returns absent at once: the
  state is as before, so neither the hash cache nor the derivation was used.
\<close>

theorem override_without_row_is_absent:
  assumes "\<not> isCloud cfg" and "reachable s"
    and "find (\<lambda>v. env_value cfg v = Some secretKey)
           (filter (startsWith ''NANGO_SECRET_KEY_'') (env_keys cfg)) = Some v"
    and "\<forall>r \<in> set (environments s). name r \<noteq> toLowerCase cfg (drop (length ''NANGO_SECRET_KEY_'') v)"
  shows "getAccountAndEnvironmentBySecretKey cfg secretKey s = (Inr None, s)"
proof -
  have "startsWith ''NANGO_SECRET_KEY_'' v"
    using assms(3) by (rule find_in_filter)
  then have "replace_first ''NANGO_SECRET_KEY_'' v = drop (length ''NANGO_SECRET_KEY_'') v"
    by (rule replace_first_prefix)
  moreover have "filter (\<lambda>r. name r = toLowerCase cfg (drop (length ''NANGO_SECRET_KEY_'') v)) (environments s) = []"
    using assms(4) by (simp add: filter_empty_conv)
  ultimately show ?thesis
    using assms(1-3)
    by (simp add: getAccountAndEnvironmentBySecretKey_def scan_variables_find
                  resolve_override_def knex_select_def)
qed

text \<open>The theorem at the example configuration, where the row named dev belongs to account 8.\<close>

theorem override_resolves_first_named_row_witness:
  "getAccountAndEnvironmentBySecretKey selfhosted_config ''abc123'' store8
     = (Inr (Some (account8, dev_row\<lparr>account_id := 8, secret_key := Some ''old''\<rparr>)), store8)"
  using override_resolves_first_named_row
          [of selfhosted_config store8 "''abc123''" "''NANGO_SECRET_KEY_DEV''"]
  by (simp add: example_defs string_defs crypto_defs)

text \<open>The theorem at a store without a row named dev.\<close>

theorem override_without_row_is_absent_witness:
  "getAccountAndEnvironmentBySecretKey selfhosted_config ''abc123''
      (store7\<lparr>environments := [prod_row]\<rparr>)
     = (Inr None, store7\<lparr>environments := [prod_row]\<rparr>)"
  using override_without_row_is_absent
          [of selfhosted_config "store7\<lparr>environments := [prod_row]\<rparr>" "''abc123''"
              "''NANGO_SECRET_KEY_DEV''"]
  by (simp add: example_defs string_defs)

text \<open>
  C10 as stated fails: the variable ending in DEV holds the key and no row is named
  dev, but the variable ending in PROD holds the key too and comes first, so the
  resolver returns the environment named prod instead of absent.
\<close>

theorem later_variable_without_row_is_not_absent:
  "\<not> isCloud prod_first_config
   \<and> env_value prod_first_config ''NANGO_SECRET_KEY_DEV'' = Some ''abc123''
   \<and> map name (environments (store7\<lparr>environments := [prod_row]\<rparr>)) = [''prod'']
   \<and> fst (getAccountAndEnvironmentBySecretKey prod_first_config ''abc123''
            (store7\<lparr>environments := [prod_row]\<rparr>))
       = Inr (Some (account8, prod_row\<lparr>secret_key := Some ''old''\<rparr>))"
  by (simp add: getAccountAndEnvironmentBySecretKey_def resolve_override_def
        getAccountAndEnvironment_def decrypt_found_def
        example_defs string_defs crypto_defs query_defs)

text \<open>
  C8 as stated fails: the same configuration resolves the same key to account 7 in one
  store and to account 8 in the other, so the account is not a fixed one; and the
  variable ending in PROD holds the key too, yet the environment named prod is not
  what comes back.
\<close>

theorem override_account_is_not_fixed:
  "fst (getAccountAndEnvironmentBySecretKey selfhosted_config ''abc123'' store7)
     = Inr (Some (account7, dev_row\<lparr>secret_key := Some ''old''\<rparr>))
   \<and> fst (getAccountAndEnvironmentBySecretKey selfhosted_config ''abc123'' store8)
     = Inr (Some (account8, dev_row\<lparr>account_id := 8, secret_key := Some ''old''\<rparr>))
   \<and> env_value selfhosted_config ''NANGO_SECRET_KEY_PROD'' = Some ''abc123''
   \<and> name prod_row = ''prod'' \<and> account_id prod_row = 8"
  by (simp add: getAccountAndEnvironmentBySecretKey_def resolve_override_def
        getAccountAndEnvironment_def decrypt_found_def
        example_defs string_defs crypto_defs query_defs)

section \<open>The hash path and its cache\<close>

lemma lookup_keeps_state: "snd (getAccountAndEnvironment cfg (AccountEnv a n) s) = s"
  by (simp add: getAccountAndEnvironment_def split: sum.splits)

lemma resolve_override_keeps_state: "snd (resolve_override cfg n s) = s"
  by (simp add: resolve_override_def lookup_keeps_state split: sum.splits list.splits)

lemma scan_variables_keeps_state: "scan_variables cfg p key vars s = Some r \<Longrightarrow> snd r = s"
  by (auto simp: scan_variables_find resolve_override_keeps_state split: option.splits)

lemma cached_or_hashed_result:
  "\<exists>h s1. cached_or_hashed cfg k s = (Inr (Some h), s1)
     \<and> s1 = s\<lparr>pbkdf2_calls := pbkdf2_calls s1\<rparr>
     \<and> (hashLocalCache s k = None \<longrightarrow> h = hash_value cfg k)
     \<and> (pbkdf2_calls s1 \<noteq> pbkdf2_calls s \<longrightarrow>
          (\<exists>mk. master_key cfg = Some mk \<and> h = pbkdf2 cfg k mk 310000 32 ''sha256''))"
  by (auto simp: cached_or_hashed_def hashSecretKey_def hash_value_def split: option.splits)

lemma cached_or_hashed_hit:
  "hashLocalCache s k = Some h \<Longrightarrow> h \<noteq> [] \<Longrightarrow> cached_or_hashed cfg k s = (Inr (Some h), s)"
  by (simp add: cached_or_hashed_def)

lemma find_joined_row:
  "find (\<lambda>(a, e). p e) (joined s) = Some (a, e) \<Longrightarrow> (a, e) \<in> set (joined s) \<and> p e"
  by (auto simp: find_Some_iff dest: nth_mem)

lemma joined_counter [simp]: "joined (s\<lparr>pbkdf2_calls := n\<rparr>) = joined s"
  by (simp add: joined_def)

lemma joined_cache [simp]: "joined (s\<lparr>hashLocalCache := m\<rparr>) = joined s"
  by (simp add: joined_def)

lemma hash_path_cache:
  assumes "getAccountAndEnvironment cfg (SecretKey k) s = (r, s')"
  shows "hashLocalCache s' = hashLocalCache s
       \<or> (\<exists>a e h. reachable s \<and> (a, e) \<in> set (joined s) \<and> secret_key_hashed e = Some h \<and> h \<noteq> []
             \<and> hashLocalCache s' = (hashLocalCache s)(k \<mapsto> h) \<and> r = decrypt_found cfg (Some (a, e)))"
proof -
  obtain h s1 where c: "cached_or_hashed cfg k s = (Inr (Some h), s1)"
    and s1: "s1 = s\<lparr>pbkdf2_calls := pbkdf2_calls s1\<rparr>"
    using cached_or_hashed_result [of cfg k s] by blast
  have j: "joined s1 = joined s" and rr: "reachable s1 = reachable s"
    and cc: "hashLocalCache s1 = hashLocalCache s"
    by (subst s1, simp)+
  show ?thesis
  proof (cases "knex_join_first (\<lambda>e. secret_key_hashed e = Some h) s1")
    case (Inl err)
    with assms c cc show ?thesis by (auto simp: getAccountAndEnvironment_def)
  next
    case (Inr res)
    show ?thesis
    proof (cases res)
      case None
      with Inr assms c cc show ?thesis by (auto simp: getAccountAndEnvironment_def)
    next
      case (Some ae)
      obtain a e where ae: "ae = (a, e)" by (cases ae)
      from Inr Some ae have re: "reachable s1"
        and f: "find (\<lambda>(a, e). secret_key_hashed e = Some h) (joined s1) = Some (a, e)"
        by (auto simp: knex_join_first_def split: if_splits)
      from find_joined_row [OF f] j
      have m: "(a, e) \<in> set (joined s)" "secret_key_hashed e = Some h" by auto
      from assms c Inr Some ae
      have r: "r = decrypt_found cfg (Some (a, e))" and s': "s' = store_hash k (Some h) s1"
        by (auto simp: getAccountAndEnvironment_def)
      show ?thesis
      proof (cases "h = []")
        case True
        with s' cc show ?thesis by (simp add: store_hash_def)
      next
        case False
        with s' cc have "hashLocalCache s' = (hashLocalCache s)(k \<mapsto> h)"
          by (simp add: store_hash_def)
        with m r re rr False show ?thesis by blast
      qed
    qed
  qed
qed

lemma hash_path_miss:
  assumes "\<forall>r \<in> set (environments s). secret_key_hashed r \<noteq> Some (hash_value cfg k)"
    and "hashLocalCache s k = None"
  shows "hashLocalCache (snd (getAccountAndEnvironment cfg (SecretKey k) s)) = hashLocalCache s"
proof -
  obtain r s' where g: "getAccountAndEnvironment cfg (SecretKey k) s = (r, s')"
    by (cases "getAccountAndEnvironment cfg (SecretKey k) s")
  obtain h s1 where c: "cached_or_hashed cfg k s = (Inr (Some h), s1)"
    and s1: "s1 = s\<lparr>pbkdf2_calls := pbkdf2_calls s1\<rparr>" and h: "h = hash_value cfg k"
    using cached_or_hashed_result [of cfg k s] assms(2) by blast
  have j: "joined s1 = joined s" and cc: "hashLocalCache s1 = hashLocalCache s"
    by (subst s1, simp)+
  have "find (\<lambda>(a, e). secret_key_hashed e = Some h) (joined s1) = None"
    using assms(1) h unfolding j by (auto simp: find_None_iff joined_def)
  then have "knex_join_first (\<lambda>e. secret_key_hashed e = Some h) s1 = Inr None
           \<or> knex_join_first (\<lambda>e. secret_key_hashed e = Some h) s1 = Inl StoreUnavailable"
    by (simp add: knex_join_first_def)
  with g c cc show ?thesis
    by (auto simp: getAccountAndEnvironment_def)
qed

text \<open>
  C6, as the code has it. A key whose hash no stored row carries, and which has no
  cache entry, leaves the hash cache exactly as it was (an empty cache stays empty).
  And whenever a resolution changes the cache, a joined row carrying the hash was
  matched, the new entry maps the presented key to that hash, the call was neither a
  miss nor a store failure, and its result is the decryption of the matched row: the
  pair, or the failure of that decryption, which comes after the entry was written.
\<close>

theorem no_negative_caching:
  "((\<forall>r \<in> set (environments s). secret_key_hashed r \<noteq> Some (hash_value cfg secretKey))
      \<and> hashLocalCache s secretKey = None
      \<longrightarrow> hashLocalCache (snd (getAccountAndEnvironmentBySecretKey cfg secretKey s)) = hashLocalCache s)
   \<and> (hashLocalCache (snd (getAccountAndEnvironmentBySecretKey cfg secretKey s)) \<noteq> hashLocalCache s
      \<longrightarrow> (\<exists>a e h. reachable s \<and> (a, e) \<in> set (joined s) \<and> secret_key_hashed e = Some h
            \<and> hashLocalCache (snd (getAccountAndEnvironmentBySecretKey cfg secretKey s))
                = (hashLocalCache s)(secretKey \<mapsto> h)
            \<and> fst (getAccountAndEnvironmentBySecretKey cfg secretKey s) \<noteq> Inr None
            \<and> fst (getAccountAndEnvironmentBySecretKey cfg secretKey s) \<noteq> Inl StoreUnavailable
            \<and> fst (getAccountAndEnvironmentBySecretKey cfg secretKey s)
                = decrypt_found cfg (Some (a, e))))"
proof (cases "\<not> isCloud cfg \<and> scan_variables cfg ''NANGO_SECRET_KEY_'' secretKey
                (filter (startsWith ''NANGO_SECRET_KEY_'') (env_keys cfg)) s \<noteq> None")
  case True
  then obtain r where sc: "scan_variables cfg ''NANGO_SECRET_KEY_'' secretKey
                (filter (startsWith ''NANGO_SECRET_KEY_'') (env_keys cfg)) s = Some r"
    by auto
  with True have "getAccountAndEnvironmentBySecretKey cfg secretKey s = r"
    by (simp add: getAccountAndEnvironmentBySecretKey_def)
  moreover have "snd r = s" using sc by (rule scan_variables_keeps_state)
  ultimately show ?thesis by simp
next
  case False
  then have eq: "getAccountAndEnvironmentBySecretKey cfg secretKey s
               = getAccountAndEnvironment cfg (SecretKey secretKey) s"
    by (auto simp: getAccountAndEnvironmentBySecretKey_def split: option.splits)
  obtain r s' where g: "getAccountAndEnvironment cfg (SecretKey secretKey) s = (r, s')"
    by (cases "getAccountAndEnvironment cfg (SecretKey secretKey) s")
  have nd: "decrypt_found cfg (Some ae) \<noteq> Inr None"
           "decrypt_found cfg (Some ae) \<noteq> Inl StoreUnavailable" for ae
    by (auto simp: decrypt_found_def decryptEnvironment_def decrypt_field_def
             split: sum.splits option.splits prod.splits)
  have miss: "(\<forall>r \<in> set (environments s). secret_key_hashed r \<noteq> Some (hash_value cfg secretKey))
      \<and> hashLocalCache s secretKey = None \<longrightarrow> hashLocalCache s' = hashLocalCache s"
    using hash_path_miss [of s cfg secretKey] g by simp
  have hit: "hashLocalCache s' \<noteq> hashLocalCache s
      \<longrightarrow> (\<exists>a e h. reachable s \<and> (a, e) \<in> set (joined s) \<and> secret_key_hashed e = Some h
            \<and> hashLocalCache s' = (hashLocalCache s)(secretKey \<mapsto> h)
            \<and> r \<noteq> Inr None \<and> r \<noteq> Inl StoreUnavailable
            \<and> r = decrypt_found cfg (Some (a, e)))"
    using hash_path_cache [OF g] nd by blast
  show ?thesis
    unfolding eq g fst_conv snd_conv using miss hit by (rule conjI)
qed

lemma hash_path_success:
  assumes "getAccountAndEnvironment cfg (SecretKey k) s = (Inr (Some ae), s1)"
  obtains h sa res where "cached_or_hashed cfg k s = (Inr (Some h), sa)"
    and "knex_join_first (\<lambda>e. secret_key_hashed e = Some h) sa = Inr (Some res)"
    and "decrypt_found cfg (Some res) = Inr (Some ae)"
    and "s1 = store_hash k (Some h) sa"
proof -
  obtain h sa where c: "cached_or_hashed cfg k s = (Inr (Some h), sa)"
    using cached_or_hashed_result [of cfg k s] by blast
  from assms c obtain res where
      "knex_join_first (\<lambda>e. secret_key_hashed e = Some h) sa = Inr (Some res)"
      "decrypt_found cfg (Some res) = Inr (Some ae)" "s1 = store_hash k (Some h) sa"
    by (auto simp: getAccountAndEnvironment_def split: sum.splits option.splits)
  with c that show ?thesis by blast
qed

lemma knex_join_first_cache [simp]:
  "knex_join_first p (s\<lparr>hashLocalCache := m\<rparr>) = knex_join_first p s"
  by (simp add: knex_join_first_def)

lemma hash_path_repeat:
  assumes first: "getAccountAndEnvironment cfg (SecretKey k) s = (Inr (Some ae), s1)"
    and nonempty: "\<forall>mk. master_key cfg = Some mk \<longrightarrow> pbkdf2 cfg k mk 310000 32 ''sha256'' \<noteq> []"
  shows "getAccountAndEnvironment cfg (SecretKey k) s1 = (Inr (Some ae), s1)
       \<and> (pbkdf2_calls s1 \<noteq> pbkdf2_calls s \<longrightarrow> hashLocalCache s1 k = Some (hash_value cfg k))"
proof -
  from first obtain h sa res where c: "cached_or_hashed cfg k s = (Inr (Some h), sa)"
    and j: "knex_join_first (\<lambda>e. secret_key_hashed e = Some h) sa = Inr (Some res)"
    and d: "decrypt_found cfg (Some res) = Inr (Some ae)"
    and s1: "s1 = store_hash k (Some h) sa"
    by (rule hash_path_success)
  show ?thesis
  proof (cases "h = []")
    case True
    have "master_key cfg = None"
    proof (rule ccontr)
      assume "master_key cfg \<noteq> None"
      then obtain mk where mk: "master_key cfg = Some mk" by auto
      with nonempty have "pbkdf2 cfg k mk 310000 32 ''sha256'' \<noteq> []" by simp
      with c mk True show False
        by (auto simp: cached_or_hashed_def hashSecretKey_def split: option.splits if_splits)
    qed
    with c have "sa = s"
      by (auto simp: cached_or_hashed_def hashSecretKey_def split: option.splits if_splits)
    with s1 True have "s1 = s" by (simp add: store_hash_def)
    with first show ?thesis by simp
  next
    case False
    from s1 False have s1': "s1 = sa\<lparr>hashLocalCache := (hashLocalCache sa)(k \<mapsto> h)\<rparr>"
      by (simp add: store_hash_def)
    have hit: "hashLocalCache s1 k = Some h" by (simp add: s1')
    have c2: "cached_or_hashed cfg k s1 = (Inr (Some h), s1)"
      using hit False by (rule cached_or_hashed_hit)
    have j2: "knex_join_first (\<lambda>e. secret_key_hashed e = Some h) s1 = Inr (Some res)"
      using j by (simp add: s1')
    have idem: "store_hash k (Some h) s1 = s1"
      using False by (simp add: store_hash_def s1')
    have again: "getAccountAndEnvironment cfg (SecretKey k) s1 = (Inr (Some ae), s1)"
      using c2 j2 d idem by (simp add: getAccountAndEnvironment_def)
    have "h = hash_value cfg k" if "pbkdf2_calls s1 \<noteq> pbkdf2_calls s"
    proof -
      from that have "pbkdf2_calls sa \<noteq> pbkdf2_calls s" by (simp add: s1')
      with c show ?thesis
        using cached_or_hashed_result [of cfg k s] by (auto simp: hash_value_def)
    qed
    with again hit show ?thesis by simp
  qed
qed

text \<open>
  C7. After a successful resolution the same key resolves again to the same pair and
  leaves the state as it is: the counter of \<open>pbkdf2\<close> calls does not move. If the first
  call derived the hash, the cache holds it for the second. The digest \<open>pbkdf2\<close> gives
  is assumed non-empty (32 bytes in base64), since an empty cached string is falsy.
\<close>

theorem second_resolution_skips_derivation:
  assumes "getAccountAndEnvironmentBySecretKey cfg secretKey s = (Inr (Some ae), s1)"
    and "\<forall>mk. master_key cfg = Some mk \<longrightarrow> pbkdf2 cfg secretKey mk 310000 32 ''sha256'' \<noteq> []"
  shows "getAccountAndEnvironmentBySecretKey cfg secretKey s1 = (Inr (Some ae), s1)
       \<and> pbkdf2_calls (snd (getAccountAndEnvironmentBySecretKey cfg secretKey s1)) = pbkdf2_calls s1
       \<and> (pbkdf2_calls s1 \<noteq> pbkdf2_calls s
            \<longrightarrow> hashLocalCache s1 secretKey = Some (hash_value cfg secretKey))"
proof (cases "\<not> isCloud cfg \<and> scan_variables cfg ''NANGO_SECRET_KEY_'' secretKey
                (filter (startsWith ''NANGO_SECRET_KEY_'') (env_keys cfg)) s \<noteq> None")
  case True
  then obtain r where sc: "scan_variables cfg ''NANGO_SECRET_KEY_'' secretKey
                (filter (startsWith ''NANGO_SECRET_KEY_'') (env_keys cfg)) s = Some r"
    by auto
  with True have "getAccountAndEnvironmentBySecretKey cfg secretKey s = r"
    by (simp add: getAccountAndEnvironmentBySecretKey_def)
  moreover have "snd r = s" using sc by (rule scan_variables_keeps_state)
  ultimately have "s1 = s" using assms(1) by auto
  with assms(1) show ?thesis by simp
next
  case False
  have scan_same: "scan_variables cfg p key vars s1 = None" if "scan_variables cfg p key vars s = None"
    for p key vars
    using that by (simp add: scan_variables_find split: option.splits)
  from False have eq: "getAccountAndEnvironmentBySecretKey cfg secretKey s
               = getAccountAndEnvironment cfg (SecretKey secretKey) s"
    by (auto simp: getAccountAndEnvironmentBySecretKey_def split: option.splits)
  have eq1: "getAccountAndEnvironmentBySecretKey cfg secretKey s1
               = getAccountAndEnvironment cfg (SecretKey secretKey) s1"
  proof (cases "isCloud cfg")
    case True
    then show ?thesis by (simp add: getAccountAndEnvironmentBySecretKey_def)
  next
    case cloudless: False
    with False have "scan_variables cfg ''NANGO_SECRET_KEY_'' secretKey
                (filter (startsWith ''NANGO_SECRET_KEY_'') (env_keys cfg)) s = None"
      by blast
    then have "scan_variables cfg ''NANGO_SECRET_KEY_'' secretKey
                (filter (startsWith ''NANGO_SECRET_KEY_'') (env_keys cfg)) s1 = None"
      by (rule scan_same)
    then show ?thesis by (simp add: getAccountAndEnvironmentBySecretKey_def)
  qed
  from hash_path_repeat [OF assms(1) [unfolded eq] assms(2)]
  show ?thesis unfolding eq1 by simp
qed

text \<open>The theorem at a key that the example store does not know, and at the active key.\<close>

theorem no_negative_caching_witness:
  "hashLocalCache store7 ''wrong'' = None
   \<and> fst (getAccountAndEnvironmentBySecretKey cloud_config ''wrong'' store7) = Inr None
   \<and> hashLocalCache (snd (getAccountAndEnvironmentBySecretKey cloud_config ''wrong'' store7))
       = hashLocalCache store7
   \<and> hashLocalCache (snd (getAccountAndEnvironmentBySecretKey cloud_config ''old'' store7))
       = [''old'' \<mapsto> ''#old'']
   \<and> (\<exists>a e. (a, e) \<in> set (joined store7) \<and> secret_key_hashed e = Some ''#old'')"
proof -
  have "fst (getAccountAndEnvironmentBySecretKey cloud_config ''wrong'' store7) = Inr None"
    by (simp add: resolver_defs query_defs crypto_defs example_defs)
  moreover have "hashLocalCache store7 ''wrong'' = None"
    by (simp add: store7_def)
  moreover have "\<forall>r \<in> set (environments store7).
      secret_key_hashed r \<noteq> Some (hash_value cloud_config ''wrong'')"
    by (simp add: hash_value_def master_key_def example_defs)
  ultimately have miss: "hashLocalCache store7 ''wrong'' = None
   \<and> fst (getAccountAndEnvironmentBySecretKey cloud_config ''wrong'' store7) = Inr None
   \<and> hashLocalCache (snd (getAccountAndEnvironmentBySecretKey cloud_config ''wrong'' store7))
       = hashLocalCache store7"
    using no_negative_caching [of store7 cloud_config "''wrong''"] by simp
  have hit: "hashLocalCache (snd (getAccountAndEnvironmentBySecretKey cloud_config ''old'' store7))
       = [''old'' \<mapsto> ''#old'']"
    by (simp add: resolver_defs query_defs crypto_defs example_defs)
  have empty: "hashLocalCache store7 = Map.empty"
    by (simp add: store7_def)
  from hit empty
  have "hashLocalCache (snd (getAccountAndEnvironmentBySecretKey cloud_config ''old'' store7))
       \<noteq> hashLocalCache store7"
    by simp
  with no_negative_caching [of store7 cloud_config "''old''"]
  obtain a e h where "(a, e) \<in> set (joined store7)" and "secret_key_hashed e = Some h"
    and "hashLocalCache (snd (getAccountAndEnvironmentBySecretKey cloud_config ''old'' store7))
           = (hashLocalCache store7)(''old'' \<mapsto> h)"
    by blast
  with hit empty have "(a, e) \<in> set (joined store7) \<and> secret_key_hashed e = Some ''#old''"
    by (auto dest: map_upd_eqD1)
  with miss hit show ?thesis by blast
qed

text \<open>
  C6 as stated fails: in the store whose first row has a tag that does not verify, the
  key \<open>''old''\<close> has no cache entry, its hash matches the row, the call ends in the
  decryption failure, and the cache holds the entry afterwards.
\<close>

theorem cache_entry_survives_decryption_failure:
  "hashLocalCache tampered_store ''old'' = None
   \<and> fst (getAccountAndEnvironmentBySecretKey cloud_config ''old'' tampered_store)
       = Inl DecryptionFailure
   \<and> hashLocalCache (snd (getAccountAndEnvironmentBySecretKey cloud_config ''old'' tampered_store))
         ''old'' = Some ''#old''"
  by (simp add: resolver_defs query_defs crypto_defs example_defs)

text \<open>The theorem at the active key of the example store: the first call derives once.\<close>

theorem second_resolution_skips_derivation_witness:
  "getAccountAndEnvironmentBySecretKey cloud_config ''old'' store7
     = (Inr (Some (account7, dev_row\<lparr>secret_key := Some ''old''\<rparr>)),
        store7\<lparr>hashLocalCache := [''old'' \<mapsto> ''#old''], pbkdf2_calls := 1\<rparr>)
   \<and> getAccountAndEnvironmentBySecretKey cloud_config ''old''
        (store7\<lparr>hashLocalCache := [''old'' \<mapsto> ''#old''], pbkdf2_calls := 1\<rparr>)
     = (Inr (Some (account7, dev_row\<lparr>secret_key := Some ''old''\<rparr>)),
        store7\<lparr>hashLocalCache := [''old'' \<mapsto> ''#old''], pbkdf2_calls := 1\<rparr>)"
proof -
  have first: "getAccountAndEnvironmentBySecretKey cloud_config ''old'' store7
     = (Inr (Some (account7, dev_row\<lparr>secret_key := Some ''old''\<rparr>)),
        store7\<lparr>hashLocalCache := [''old'' \<mapsto> ''#old''], pbkdf2_calls := 1\<rparr>)"
    by (simp add: resolver_defs query_defs crypto_defs example_defs)
  have nonempty: "\<forall>mk. master_key cloud_config = Some mk
      \<longrightarrow> pbkdf2 cloud_config ''old'' mk 310000 32 ''sha256'' \<noteq> []"
    by (simp add: example_defs)
  from second_resolution_skips_derivation [OF first nonempty] first
  show ?thesis by simp
qed

section \<open>Rotation and revert\<close>

lemma getById_SomeD:
  assumes "getById cfg i s = Inr (Some env)"
  obtains raw rest where "reachable s"
    and "filter (\<lambda>r. env_id r = i) (environments s) = raw # rest"
    and "decryptEnvironment cfg raw = Inr env"
  using assms
  by (auto simp: getById_def knex_select_def split: if_splits list.splits sum.splits)

lemma getById_SomeI:
  assumes "reachable s" and "filter (\<lambda>r. env_id r = i) (environments s) = raw # rest"
    and "decryptEnvironment cfg raw = Inr env"
  shows "getById cfg i s = Inr (Some env)"
  using assms by (simp add: getById_def knex_select_def)

lemma filter_hd_env_id:
  assumes "filter (\<lambda>r. env_id r = i) rows = raw # rest"
  shows "env_id raw = i"
proof -
  from assms have "raw \<in> set (filter (\<lambda>r. env_id r = i) rows)" by simp
  then show ?thesis by simp
qed

lemma decryptEnvironment_frame:
  assumes "decryptEnvironment cfg r = Inr d"
  shows "d = r\<lparr>secret_key := secret_key d, pending_secret_key := pending_secret_key d\<rparr>"
  using assms by (auto simp: decryptEnvironment_def split: option.splits sum.splits)

lemma encryptEnvironment_frame:
  "encryptEnvironment cfg e =
     e\<lparr>secret_key := secret_key (encryptEnvironment cfg e),
       secret_key_iv := secret_key_iv (encryptEnvironment cfg e),
       secret_key_tag := secret_key_tag (encryptEnvironment cfg e),
       pending_secret_key := pending_secret_key (encryptEnvironment cfg e),
       pending_secret_key_iv := pending_secret_key_iv (encryptEnvironment cfg e),
       pending_secret_key_tag := pending_secret_key_tag (encryptEnvironment cfg e)\<rparr>"
  by (auto simp: encryptEnvironment_def encrypt_secret_def encrypt_pending_def
           split: option.splits prod.splits)

lemma decrypt_field_sealed:
  assumes "cipher_roundtrip cfg" and "master_key cfg = Some k"
    and "cipher_encrypt cfg k p = (c, iv, tag)"
  shows "decrypt_field cfg k (Some c) (Some iv) (Some tag) = Inr (Some p)"
  using assms by (simp add: cipher_roundtrip_def decrypt_field_def)

lemma decrypt_encrypt:
  assumes "cipher_roundtrip cfg"
  shows "decryptEnvironment cfg (encryptEnvironment cfg e)
       = Inr ((encryptEnvironment cfg e)\<lparr>secret_key := secret_key e,
                                         pending_secret_key := pending_secret_key e\<rparr>)"
proof (cases "master_key cfg")
  case None
  then show ?thesis by (simp add: decryptEnvironment_def encryptEnvironment_def)
next
  case (Some k)
  note rt = decrypt_field_sealed [OF assms Some]
  show ?thesis
    using Some
    by (auto simp: decryptEnvironment_def encryptEnvironment_def encrypt_secret_def
                   encrypt_pending_def rt decrypt_field_def [of _ _ None]
             split: option.splits prod.splits)
qed

lemma filter_updated:
  assumes "\<And>r. env_id r = i \<Longrightarrow> env_id (upd r) = i"
  shows "filter (\<lambda>r. env_id r = i) (map (\<lambda>r. if env_id r = i then upd r else r) rows)
       = map upd (filter (\<lambda>r. env_id r = i) rows)"
  using assms by (induction rows) auto


lemma map_update_twice:
  "map (\<lambda>r. if env_id r = i then c else r) (map (\<lambda>r. if env_id r = i then upd r else r) rows)
     = map (\<lambda>r. if env_id r = i then c else r) rows"
  if "\<And>r. env_id r = i \<Longrightarrow> env_id (upd r) = i"
  using that by (induction rows) auto

lemma decryptEnvironment_env_id: "decryptEnvironment cfg r = Inr d \<Longrightarrow> env_id d = env_id r"
  by (drule decryptEnvironment_frame) (erule ssubst, simp)

lemma encryptEnvironment_env_id [simp]: "env_id (encryptEnvironment cfg e) = env_id e"
  by (subst encryptEnvironment_frame) simp

text \<open>What \<open>rotateSecretKey\<close> leaves behind: two writes, the second one the whole record.\<close>

lemma rotateSecretKey_result:
  assumes "getById cfg i s = Inr (Some env)"
  shows "rotateSecretKey cfg fresh i s =
     (Inr (Some fresh),
      s\<lparr>environments :=
           map (\<lambda>r. if env_id r = i
                     then encryptEnvironment cfg (env\<lparr>pending_secret_key := Some fresh\<rparr>) else r)
               (environments s),
        writes := writes s @
          [map (\<lambda>r. if env_id r = i then r\<lparr>pending_secret_key := Some fresh\<rparr> else r)
               (environments s),
           map (\<lambda>r. if env_id r = i
                     then encryptEnvironment cfg (env\<lparr>pending_secret_key := Some fresh\<rparr>) else r)
               (environments s)]\<rparr>)"
proof -
  from assms obtain raw rest where re: "reachable s"
    and f: "filter (\<lambda>r. env_id r = i) (environments s) = raw # rest"
    and d: "decryptEnvironment cfg raw = Inr env"
    by (rule getById_SomeD)
  have tw: "map (\<lambda>r. if env_id r = i then c else r)
              (map (\<lambda>r. if env_id r = i then r\<lparr>pending_secret_key := Some fresh\<rparr> else r) rows)
          = map (\<lambda>r. if env_id r = i then c else r) rows"
    for c :: environment and rows :: "environment list"
    by (rule map_update_twice) simp
  show ?thesis
    using assms re by (simp add: rotateSecretKey_def knex_update_def Let_def tw)
qed













section \<open>Rotation and activation\<close>

lemma decrypt_promoted:
  assumes "decryptEnvironment cfg r = Inr d"
  shows "decryptEnvironment cfg
           (r\<lparr>secret_key := pending_secret_key r, secret_key_iv := pending_secret_key_iv r,
              secret_key_tag := pending_secret_key_tag r, secret_key_hashed := h,
              pending_secret_key := None, pending_secret_key_iv := None,
              pending_secret_key_tag := None\<rparr>)
       = Inr (r\<lparr>secret_key := pending_secret_key d, secret_key_iv := pending_secret_key_iv r,
                secret_key_tag := pending_secret_key_tag r, secret_key_hashed := h,
                pending_secret_key := None, pending_secret_key_iv := None,
                pending_secret_key_tag := None\<rparr>)"
  using assms
  by (auto simp: decryptEnvironment_def decrypt_field_def [of _ _ None]
           split: option.splits sum.splits)

lemma hashSecretKey_string:
  "hashSecretKey cfg (Some p) s =
     (Inr (Some (hash_value cfg p)),
      s\<lparr>pbkdf2_calls := (if master_key cfg = None then pbkdf2_calls s else Suc (pbkdf2_calls s))\<rparr>)"
  by (simp add: hashSecretKey_def hash_value_def split: option.splits)

lemma getById_cong:
  "reachable s = reachable t \<Longrightarrow> environments s = environments t
     \<Longrightarrow> getById cfg i s = getById cfg i t"
  by (simp add: getById_def knex_select_def)

lemma activateSecretKey_result:
  assumes re: "reachable s"
    and f: "filter (\<lambda>r. env_id r = i) (environments s) = raw # rest"
    and d: "decryptEnvironment cfg raw = Inr dec"
    and p: "pending_secret_key dec = Some fresh"
  shows "activateSecretKey cfg i s =
     (Inr True,
      s\<lparr>pbkdf2_calls := (if master_key cfg = None then pbkdf2_calls s else Suc (pbkdf2_calls s)),
        environments :=
           map (\<lambda>r. if env_id r = i
                     then r\<lparr>secret_key := pending_secret_key raw,
                            secret_key_iv := pending_secret_key_iv raw,
                            secret_key_tag := pending_secret_key_tag raw,
                            secret_key_hashed := Some (hash_value cfg fresh),
                            pending_secret_key := None, pending_secret_key_iv := None,
                            pending_secret_key_tag := None\<rparr> else r) (environments s),
        writes := writes s @
          [map (\<lambda>r. if env_id r = i
                     then r\<lparr>secret_key := pending_secret_key raw,
                            secret_key_iv := pending_secret_key_iv raw,
                            secret_key_tag := pending_secret_key_tag raw,
                            secret_key_hashed := Some (hash_value cfg fresh),
                            pending_secret_key := None, pending_secret_key_iv := None,
                            pending_secret_key_tag := None\<rparr> else r) (environments s)]\<rparr>)"
proof -
  define upd where "upd = (\<lambda>r::environment. r\<lparr>secret_key := pending_secret_key raw,
                            secret_key_iv := pending_secret_key_iv raw,
                            secret_key_tag := pending_secret_key_tag raw,
                            secret_key_hashed := Some (hash_value cfg fresh),
                            pending_secret_key := None, pending_secret_key_iv := None,
                            pending_secret_key_tag := None\<rparr>)"
  define sh where "sh = s\<lparr>pbkdf2_calls :=
      (if master_key cfg = None then pbkdf2_calls s else Suc (pbkdf2_calls s))\<rparr>"
  define s2 where "s2 = sh\<lparr>environments := map (\<lambda>r. if env_id r = i then upd r else r) (environments sh),
        writes := writes sh @ [map (\<lambda>r. if env_id r = i then upd r else r) (environments sh)]\<rparr>"
  have raw: "getRawById i s = Inr (Some raw)"
    using re f by (simp add: getRawById_def knex_select_def)
  have h: "hashSecretKey cfg (Some fresh) s = (Inr (Some (hash_value cfg fresh)), sh)"
    by (simp add: hashSecretKey_string sh_def)
  have u: "knex_update (\<lambda>r. env_id r = i) upd sh = (Inr (), s2)"
    using re by (simp add: knex_update_def Let_def s2_def sh_def)
  have f2: "filter (\<lambda>r. env_id r = i) (environments s2) = upd raw # map upd rest"
    unfolding s2_def sh_def using filter_updated [of i upd "environments s"] f
    by (simp add: upd_def)
  have "decryptEnvironment cfg (upd raw) \<noteq> Inl e" for e
    unfolding upd_def using decrypt_promoted [OF d, of "Some (hash_value cfg fresh)"] by simp
  then obtain d2 where "decryptEnvironment cfg (upd raw) = Inr d2"
    by (cases "decryptEnvironment cfg (upd raw)") auto
  with f2 have g2: "getById cfg i s2 = Inr (Some d2)"
    by (intro getById_SomeI [where raw = "upd raw" and rest = "map upd rest"])
       (simp_all add: s2_def sh_def re)
  have "activateSecretKey cfg i s = (Inr True, s2)"
    using raw d p h u [unfolded upd_def] g2
    by (simp add: activateSecretKey_def)
  then show ?thesis by (simp add: s2_def sh_def upd_def)
qed

lemma no_override_hash_path:
  assumes "no_override cfg ''NANGO_SECRET_KEY_'' k"
  shows "getAccountAndEnvironmentBySecretKey cfg k s = getAccountAndEnvironment cfg (SecretKey k) s"
proof (cases "isCloud cfg")
  case True
  then show ?thesis by (simp add: getAccountAndEnvironmentBySecretKey_def)
next
  case False
  with assms have "find (\<lambda>v. env_value cfg v = Some k)
      (filter (startsWith ''NANGO_SECRET_KEY_'') (env_keys cfg)) = None"
    unfolding no_override_def find_None_iff by blast
  then show ?thesis
    by (simp add: getAccountAndEnvironmentBySecretKey_def scan_variables_find)
qed

lemma cached_or_hashed_sound:
  assumes "cache_sound cfg s"
  shows "\<exists>s'. cached_or_hashed cfg k s = (Inr (Some (hash_value cfg k)), s')
            \<and> reachable s' = reachable s \<and> joined s' = joined s"
  using assms
  by (auto simp: cache_sound_def cached_or_hashed_def hashSecretKey_string joined_def
           split: option.splits)

lemma set_joined:
  "(a, e) \<in> set (joined s)
     \<longleftrightarrow> e \<in> set (environments s) \<and> a \<in> set (accounts s) \<and> acc_id a = account_id e"
  by (auto simp: joined_def)

lemma resolve_hash_hit:
  assumes re: "reachable s" and cs: "cache_sound cfg s"
    and only: "\<forall>e \<in> set (environments s). secret_key_hashed e = Some (hash_value cfg k) \<longrightarrow> e = row"
    and row: "row \<in> set (environments s)" "secret_key_hashed row = Some (hash_value cfg k)"
    and acct: "a0 \<in> set (accounts s)" "acc_id a0 = account_id row"
    and d: "decryptEnvironment cfg row = Inr dec"
  shows "\<exists>a s'. getAccountAndEnvironment cfg (SecretKey k) s = (Inr (Some (a, dec)), s')
              \<and> acc_id a = account_id row"
proof -
  from cs obtain s' where c: "cached_or_hashed cfg k s = (Inr (Some (hash_value cfg k)), s')"
    and re': "reachable s' = reachable s" and j: "joined s' = joined s"
    using cached_or_hashed_sound by blast
  have "(a0, row) \<in> set (joined s)" using row acct by (simp add: set_joined)
  with row(2) have "find (\<lambda>(a, e). secret_key_hashed e = Some (hash_value cfg k)) (joined s) \<noteq> None"
    by (auto simp: find_None_iff)
  then obtain a e where
    fd: "find (\<lambda>(a, e). secret_key_hashed e = Some (hash_value cfg k)) (joined s) = Some (a, e)"
    by auto
  from find_joined_row [OF fd] have "(a, e) \<in> set (joined s)"
    and "secret_key_hashed e = Some (hash_value cfg k)" by auto
  with only have e: "e = row" and a: "acc_id a = account_id row" by (auto simp: set_joined)
  have "knex_join_first (\<lambda>e. secret_key_hashed e = Some (hash_value cfg k)) s' = Inr (Some (a, row))"
    using fd re re' j e by (simp add: knex_join_first_def)
  with c d a show ?thesis
    by (simp add: getAccountAndEnvironment_def decrypt_found_def)
qed

lemma resolve_hash_miss:
  assumes re: "reachable s" and cs: "cache_sound cfg s"
    and none: "\<forall>e \<in> set (environments s). secret_key_hashed e \<noteq> Some (hash_value cfg k)"
  shows "fst (getAccountAndEnvironment cfg (SecretKey k) s) = Inr None"
proof -
  from cs obtain s' where c: "cached_or_hashed cfg k s = (Inr (Some (hash_value cfg k)), s')"
    and re': "reachable s' = reachable s" and j: "joined s' = joined s"
    using cached_or_hashed_sound by blast
  have "find (\<lambda>(a, e). secret_key_hashed e = Some (hash_value cfg k)) (joined s) = None"
    using none by (auto simp: find_None_iff set_joined)
  then have "knex_join_first (\<lambda>e. secret_key_hashed e = Some (hash_value cfg k)) s' = Inr None"
    using re re' j by (simp add: knex_join_first_def)
  with c show ?thesis by (simp add: getAccountAndEnvironment_def)
qed

lemma map_update_const:
  assumes "env_id c = i"
  shows "map (\<lambda>r. if env_id r = i then upd r else r) (map (\<lambda>r. if env_id r = i then c else r) rows)
       = map (\<lambda>r. if env_id r = i then upd c else r) rows"
  using assms by (induction rows) auto

lemma set_map_const:
  "e \<in> set (map (\<lambda>r. if env_id r = i then c else r) rows)
     \<Longrightarrow> e = c \<or> (e \<in> set rows \<and> env_id e \<noteq> i)"
  by (induction rows) (auto split: if_splits)

lemma const_in_map:
  "r0 \<in> set rows \<Longrightarrow> env_id r0 = i \<Longrightarrow> c \<in> set (map (\<lambda>r. if env_id r = i then c else r) rows)"
  by (induction rows) auto

lemma cache_sound_cong: "hashLocalCache t = hashLocalCache s \<Longrightarrow> cache_sound cfg s \<Longrightarrow> cache_sound cfg t"
  by (simp add: cache_sound_def)

text \<open>
  C3, as the code has it. For an environment that \<open>getById\<close> returns, a cipher that decrypts what it
  encrypted, a sound hash cache, no configured override for the keys involved, an
  account for the environment, and hashes that are unique (no row of another id
  stores the hash of the new value or of \<open>old\<close>, and the two hashes differ): beginning
  a rotation of the secret key and activating it succeeds; the activation is a single
  write of the table; the stored row then carries the hash of the new value and empty
  pending columns; resolving the new value returns this environment, decrypted, with
  its account; and resolving \<open>old\<close> (the previously active value, or any other key of a
  different hash) returns absent.
\<close>

theorem rotate_then_activate:
  assumes g: "getById cfg i s = Inr (Some env)"
    and rt: "cipher_roundtrip cfg"
    and distinct: "hash_value cfg old \<noteq> hash_value cfg fresh"
    and uniq: "\<forall>r \<in> set (environments s). env_id r \<noteq> i \<longrightarrow>
                 secret_key_hashed r \<noteq> Some (hash_value cfg fresh)
                 \<and> secret_key_hashed r \<noteq> Some (hash_value cfg old)"
    and acct: "\<exists>a \<in> set (accounts s). acc_id a = account_id env"
    and cs: "cache_sound cfg s"
    and nov: "no_override cfg ''NANGO_SECRET_KEY_'' fresh" "no_override cfg ''NANGO_SECRET_KEY_'' old"
  shows "\<exists>s1 s2.
        rotateKey cfg fresh i ''secret'' s = (Inr (Some fresh), s1)
      \<and> activateKey cfg i ''secret'' s1 = (Inr True, s2)
      \<and> writes s2 = writes s1 @ [environments s2]
      \<and> (\<exists>raw'. getRawById i s2 = Inr (Some raw')
            \<and> secret_key_hashed raw' = Some (hash_value cfg fresh)
            \<and> pending_secret_key raw' = None \<and> pending_secret_key_iv raw' = None
            \<and> pending_secret_key_tag raw' = None)
      \<and> (\<exists>a e s3. getAccountAndEnvironmentBySecretKey cfg fresh s2 = (Inr (Some (a, e)), s3)
            \<and> env_id e = i \<and> secret_key e = Some fresh \<and> acc_id a = account_id env)
      \<and> fst (getAccountAndEnvironmentBySecretKey cfg old s2) = Inr None"
proof -
  from g obtain raw rest where re: "reachable s"
    and f: "filter (\<lambda>r. env_id r = i) (environments s) = raw # rest"
    and d: "decryptEnvironment cfg raw = Inr env"
    by (rule getById_SomeD)
  have idr: "env_id raw = i" using f by (rule filter_hd_env_id)
  have rawin: "raw \<in> set (environments s)"
  proof -
    from f have "raw \<in> set (filter (\<lambda>r. env_id r = i) (environments s))" by simp
    then show ?thesis by simp
  qed
  have ide: "env_id env = i" using decryptEnvironment_env_id [OF d] idr by simp
  define enc where "enc = encryptEnvironment cfg (env\<lparr>pending_secret_key := Some fresh\<rparr>)"
  define s1 where "s1 = snd (rotateSecretKey cfg fresh i s)"
  have r1: "rotateSecretKey cfg fresh i s = (Inr (Some fresh), s1)"
    unfolding s1_def by (simp add: rotateSecretKey_result [OF g])
  have s1: "s1 = s\<lparr>environments := map (\<lambda>r. if env_id r = i then enc else r) (environments s),
                   writes := writes s1\<rparr>"
    unfolding s1_def enc_def by (simp add: rotateSecretKey_result [OF g])
  have idenc: "env_id enc = i" by (simp add: enc_def ide)
  have accenc: "account_id enc = account_id env"
    unfolding enc_def by (subst encryptEnvironment_frame) simp
  have denc: "decryptEnvironment cfg enc
      = Inr (enc\<lparr>secret_key := secret_key env, pending_secret_key := Some fresh\<rparr>)"
    unfolding enc_def using decrypt_encrypt [OF rt, of "env\<lparr>pending_secret_key := Some fresh\<rparr>"]
    by simp
  have re1: "reachable s1" by (subst s1) (simp add: re)
  have env1: "environments s1 = map (\<lambda>r. if env_id r = i then enc else r) (environments s)"
    by (subst s1) simp
  have f1: "filter (\<lambda>r. env_id r = i) (environments s1) = enc # map (\<lambda>r. enc) rest"
    unfolding env1 using filter_updated [of i "\<lambda>r. enc" "environments s"] idenc f by simp
  define row where "row = enc\<lparr>secret_key := pending_secret_key enc,
                            secret_key_iv := pending_secret_key_iv enc,
                            secret_key_tag := pending_secret_key_tag enc,
                            secret_key_hashed := Some (hash_value cfg fresh),
                            pending_secret_key := None, pending_secret_key_iv := None,
                            pending_secret_key_tag := None\<rparr>"
  define s2 where "s2 = snd (activateSecretKey cfg i s1)"
  note act = activateSecretKey_result [OF re1 f1 denc, of fresh, simplified]
  have r2: "activateSecretKey cfg i s1 = (Inr True, s2)"
    unfolding s2_def by (simp add: act)
  have env2': "environments s2 = map (\<lambda>r. if env_id r = i then
                     r\<lparr>secret_key := pending_secret_key enc,
                            secret_key_iv := pending_secret_key_iv enc,
                            secret_key_tag := pending_secret_key_tag enc,
                            secret_key_hashed := Some (hash_value cfg fresh),
                            pending_secret_key := None, pending_secret_key_iv := None,
                            pending_secret_key_tag := None\<rparr> else r) (environments s1)"
    unfolding s2_def by (simp add: act)
  have env2: "environments s2 = map (\<lambda>r. if env_id r = i then row else r) (environments s)"
    unfolding env2' env1 row_def by (rule map_update_const) (rule idenc)
  have w2: "writes s2 = writes s1 @ [environments s2]"
    unfolding s2_def by (simp add: act)
  have re2: "reachable s2" unfolding s2_def by (simp add: act re1)
  have acc1: "accounts s1 = accounts s" and cache1: "hashLocalCache s1 = hashLocalCache s"
    by (subst s1, simp)+
  have acc2: "accounts s2 = accounts s"
    unfolding s2_def by (simp add: act acc1)
  have cache2: "hashLocalCache s2 = hashLocalCache s"
    unfolding s2_def by (simp add: act cache1)
  have cs2: "cache_sound cfg s2" using cache2 cs by (rule cache_sound_cong)
  have idrow: "env_id row = i" by (simp add: row_def idenc)
  have f2: "filter (\<lambda>r. env_id r = i) (environments s2) = row # map (\<lambda>r. row) rest"
    unfolding env2 using filter_updated [of i "\<lambda>r. row" "environments s"] idrow f by simp
  have raw2: "getRawById i s2 = Inr (Some row)"
    using f2 re2 by (simp add: getRawById_def knex_select_def)
  have stored: "\<exists>raw'. getRawById i s2 = Inr (Some raw')
            \<and> secret_key_hashed raw' = Some (hash_value cfg fresh)
            \<and> pending_secret_key raw' = None \<and> pending_secret_key_iv raw' = None
            \<and> pending_secret_key_tag raw' = None"
    using raw2 by (simp add: row_def)
  have drow: "decryptEnvironment cfg row = Inr (row\<lparr>secret_key := Some fresh\<rparr>)"
    unfolding row_def using decrypt_promoted [OF denc, of "Some (hash_value cfg fresh)"] by simp
  have rowin: "row \<in> set (environments s2)"
    unfolding env2 using rawin idr by (rule const_in_map)
  have hrow: "secret_key_hashed row = Some (hash_value cfg fresh)" by (simp add: row_def)
  have only: "\<forall>e \<in> set (environments s2).
      secret_key_hashed e = Some (hash_value cfg fresh) \<longrightarrow> e = row"
    unfolding env2 using uniq by (auto dest!: set_map_const)
  have none: "\<forall>e \<in> set (environments s2). secret_key_hashed e \<noteq> Some (hash_value cfg old)"
    unfolding env2 using uniq distinct hrow by (auto dest!: set_map_const)
  from acct obtain a0 where a0: "a0 \<in> set (accounts s2)" "acc_id a0 = account_id row"
    by (auto simp: acc2 row_def accenc)
  from resolve_hash_hit [OF re2 cs2 only rowin hrow a0 drow]
  obtain a s3 where "getAccountAndEnvironment cfg (SecretKey fresh) s2
        = (Inr (Some (a, row\<lparr>secret_key := Some fresh\<rparr>)), s3)"
    and "acc_id a = account_id row" by blast
  then have new: "\<exists>a e s3. getAccountAndEnvironmentBySecretKey cfg fresh s2 = (Inr (Some (a, e)), s3)
            \<and> env_id e = i \<and> secret_key e = Some fresh \<and> acc_id a = account_id env"
    using no_override_hash_path [OF nov(1), of s2] by (simp add: idenc row_def accenc)
  have gone: "fst (getAccountAndEnvironmentBySecretKey cfg old s2) = Inr None"
    using resolve_hash_miss [OF re2 cs2 none] no_override_hash_path [OF nov(2), of s2] by simp
  from r1 r2 w2 stored new gone show ?thesis
    by (auto simp: rotateKey_def activateKey_def)
qed

text \<open>The theorem at environment 1 of the example store, whose active secret is \<open>''old''\<close>.\<close>

theorem rotate_then_activate_witness:
  "getById cloud_config 1 store7 = Inr (Some (dev_row\<lparr>secret_key := Some ''old''\<rparr>))
   \<and> fst (activateKey cloud_config 1 ''secret'' (snd (rotateKey cloud_config ''new'' 1 ''secret'' store7)))
       = Inr True
   \<and> (\<exists>a e. fst (getAccountAndEnvironmentBySecretKey cloud_config ''new''
                  (snd (activateKey cloud_config 1 ''secret''
                         (snd (rotateKey cloud_config ''new'' 1 ''secret'' store7)))))
               = Inr (Some (a, e)) \<and> env_id e = 1 \<and> secret_key e = Some ''new'')
   \<and> fst (getAccountAndEnvironmentBySecretKey cloud_config ''old''
            (snd (activateKey cloud_config 1 ''secret''
                   (snd (rotateKey cloud_config ''new'' 1 ''secret'' store7)))))
       = Inr None"
proof -
  have g: "getById cloud_config 1 store7 = Inr (Some (dev_row\<lparr>secret_key := Some ''old''\<rparr>))"
    by (simp add: read_defs query_defs crypto_defs example_defs)
  have rt: "cipher_roundtrip cloud_config"
    by (simp add: cipher_roundtrip_def master_key_def example_defs)
  have distinct: "hash_value cloud_config ''old'' \<noteq> hash_value cloud_config ''new''"
    by (simp add: hash_value_def master_key_def example_defs)
  have uniq: "\<forall>r \<in> set (environments store7). env_id r \<noteq> 1 \<longrightarrow>
                 secret_key_hashed r \<noteq> Some (hash_value cloud_config ''new'')
                 \<and> secret_key_hashed r \<noteq> Some (hash_value cloud_config ''old'')"
    by (simp add: hash_value_def master_key_def example_defs)
  have acct: "\<exists>a \<in> set (accounts store7). acc_id a = account_id (dev_row\<lparr>secret_key := Some ''old''\<rparr>)"
    by (simp add: example_defs)
  have cs: "cache_sound cloud_config store7"
    by (simp add: cache_sound_def store7_def)
  have nov: "no_override cloud_config ''NANGO_SECRET_KEY_'' k" for k
    by (simp add: no_override_def cloud_config_def)
  from rotate_then_activate [OF g rt distinct uniq acct cs nov nov]
  obtain s1 s2 where "rotateKey cloud_config ''new'' 1 ''secret'' store7 = (Inr (Some ''new''), s1)"
    and "activateKey cloud_config 1 ''secret'' s1 = (Inr True, s2)"
    and "\<exists>a e s3. getAccountAndEnvironmentBySecretKey cloud_config ''new'' s2 = (Inr (Some (a, e)), s3)
            \<and> env_id e = 1 \<and> secret_key e = Some ''new''
            \<and> acc_id a = account_id (dev_row\<lparr>secret_key := Some ''old''\<rparr>)"
    and "fst (getAccountAndEnvironmentBySecretKey cloud_config ''old'' s2) = Inr None"
    by blast
  with g show ?thesis by auto
qed

text \<open>
  C3 as stated fails: in self-hosted mode with the variable for dev holding \<open>''old''\<close>,
  the active secret of environment 1, the rotation to \<open>''new''\<close> and its activation
  succeed and \<open>''new''\<close> resolves to the environment, but \<open>''old''\<close> resolves to it as
  well, through the override loop, which never looks at the stored hash.
\<close>

theorem override_keeps_old_key_valid:
  "fst (getAccountAndEnvironmentBySecretKey override_config ''old'' store7)
       = Inr (Some (account7, dev_row\<lparr>secret_key := Some ''old''\<rparr>))
   \<and> fst (activateKey override_config 1 ''secret''
            (snd (rotateKey override_config ''new'' 1 ''secret'' store7))) = Inr True
   \<and> fst (getAccountAndEnvironmentBySecretKey override_config ''new''
            (snd (activateKey override_config 1 ''secret''
                   (snd (rotateKey override_config ''new'' 1 ''secret'' store7)))))
       = Inr (Some (account7,
                    dev_row\<lparr>secret_key := Some ''new'', secret_key_iv := Some ''iv'',
                            secret_key_tag := Some ''mknew'', secret_key_hashed := Some ''#new''\<rparr>))
   \<and> fst (getAccountAndEnvironmentBySecretKey override_config ''old''
            (snd (activateKey override_config 1 ''secret''
                   (snd (rotateKey override_config ''new'' 1 ''secret'' store7)))))
       = Inr (Some (account7,
                    dev_row\<lparr>secret_key := Some ''new'', secret_key_iv := Some ''iv'',
                            secret_key_tag := Some ''mknew'', secret_key_hashed := Some ''#new''\<rparr>))"
  by (simp add: rotateKey_def rotateSecretKey_def activateKey_def activateSecretKey_def
        resolver_defs read_defs query_defs crypto_defs string_defs example_defs)

section \<open>Encryption at rest\<close>

lemma encryptEnvironment_at_rest:
  assumes "master_key cfg = Some k"
  shows "at_rest cfg k (encryptEnvironment cfg e)"
proof -
  have sec: "secret_key e = Some p \<Longrightarrow>
      sealed cfg k p (secret_key (encryptEnvironment cfg e)) (secret_key_iv (encryptEnvironment cfg e))
                     (secret_key_tag (encryptEnvironment cfg e))" for p
    using assms
    by (auto simp: encryptEnvironment_def encrypt_secret_def encrypt_pending_def sealed_def
             split: option.splits prod.splits)
  have secn: "secret_key e = None \<Longrightarrow> secret_key (encryptEnvironment cfg e) = None"
    using assms
    by (auto simp: encryptEnvironment_def encrypt_secret_def encrypt_pending_def
             split: option.splits prod.splits)
  have pen: "pending_secret_key e = Some p \<Longrightarrow>
      sealed cfg k p (pending_secret_key (encryptEnvironment cfg e))
                     (pending_secret_key_iv (encryptEnvironment cfg e))
                     (pending_secret_key_tag (encryptEnvironment cfg e))" for p
    using assms
    by (auto simp: encryptEnvironment_def encrypt_secret_def encrypt_pending_def sealed_def
             split: option.splits prod.splits)
  have penn: "pending_secret_key e = None \<Longrightarrow> pending_secret_key (encryptEnvironment cfg e) = None"
    using assms
    by (auto simp: encryptEnvironment_def encrypt_secret_def encrypt_pending_def
             split: option.splits prod.splits)
  show ?thesis
    unfolding at_rest_def
    using sec secn pen penn
    by (cases "secret_key e"; cases "pending_secret_key e") blast+
qed

lemma at_rest_pending_public [simp]: "at_rest cfg k (r\<lparr>pending_public_key := x\<rparr>) = at_rest cfg k r"
  by (simp add: at_rest_def)

lemma at_rest_public [simp]: "at_rest cfg k (r\<lparr>public_key := x\<rparr>) = at_rest cfg k r"
  by (simp add: at_rest_def)

lemma at_rest_cleared:
  "at_rest cfg k r \<Longrightarrow>
   at_rest cfg k (r\<lparr>pending_secret_key := None, pending_secret_key_iv := None,
                    pending_secret_key_tag := None\<rparr>)"
  by (simp add: at_rest_def)

lemma at_rest_promoted:
  "at_rest cfg k raw \<Longrightarrow>
   at_rest cfg k (r\<lparr>secret_key := pending_secret_key raw,
                    secret_key_iv := pending_secret_key_iv raw,
                    secret_key_tag := pending_secret_key_tag raw,
                    secret_key_hashed := h,
                    pending_secret_key := None, pending_secret_key_iv := None,
                    pending_secret_key_tag := None\<rparr>)"
  by (auto simp: at_rest_def)

lemma knex_update_keeps:
  assumes "\<forall>r \<in> set (environments s). P r"
    and "\<And>r. r \<in> set (environments s) \<Longrightarrow> env_id r = i \<Longrightarrow> P (upd r)"
  shows "\<forall>r \<in> set (environments (snd (knex_update (\<lambda>r. env_id r = i) upd s))). P r"
  using assms by (auto simp: knex_update_def Let_def)

lemma rotateSecretKey_at_rest:
  assumes mk: "master_key cfg = Some k" and inv: "\<forall>r \<in> set (environments s). at_rest cfg k r"
  shows "\<forall>r \<in> set (environments (snd (rotateSecretKey cfg fresh i s))). at_rest cfg k r"
proof (cases "\<exists>env. getById cfg i s = Inr (Some env)")
  case True
  then obtain env where g: "getById cfg i s = Inr (Some env)" by blast
  show ?thesis
    using inv encryptEnvironment_at_rest [OF mk]
    by (auto simp: rotateSecretKey_result [OF g] dest!: set_map_const)
next
  case False
  then have "snd (rotateSecretKey cfg fresh i s) = s"
    by (auto simp: rotateSecretKey_def split: sum.splits option.splits)
  with inv show ?thesis by simp
qed

lemma rotatePublicKey_at_rest:
  assumes inv: "\<forall>r \<in> set (environments s). at_rest cfg k r"
  shows "\<forall>r \<in> set (environments (snd (rotatePublicKey fresh i s))). at_rest cfg k r"
  using inv by (auto simp: rotatePublicKey_def knex_update_def Let_def)

lemma revertSecretKey_at_rest:
  assumes inv: "\<forall>r \<in> set (environments s). at_rest cfg k r"
  shows "\<forall>r \<in> set (environments (snd (revertSecretKey cfg i s))). at_rest cfg k r"
  using inv
  by (auto simp: revertSecretKey_def knex_update_def Let_def at_rest_cleared
           split: sum.splits option.splits)

lemma revertPublicKey_at_rest:
  assumes inv: "\<forall>r \<in> set (environments s). at_rest cfg k r"
  shows "\<forall>r \<in> set (environments (snd (revertPublicKey cfg i s))). at_rest cfg k r"
  using inv
  by (auto simp: revertPublicKey_def knex_update_def Let_def split: sum.splits option.splits)

lemma activatePublicKey_at_rest:
  assumes inv: "\<forall>r \<in> set (environments s). at_rest cfg k r"
  shows "\<forall>r \<in> set (environments (snd (activatePublicKey cfg i s))). at_rest cfg k r"
  using inv
  by (auto simp: activatePublicKey_def knex_update_def Let_def split: sum.splits option.splits)

lemma getRawById_in: "getRawById i s = Inr (Some raw) \<Longrightarrow> raw \<in> set (environments s)"
proof -
  assume "getRawById i s = Inr (Some raw)"
  then obtain rest where "filter (\<lambda>r. env_id r = i) (environments s) = raw # rest"
    by (auto simp: getRawById_def knex_select_def split: if_splits list.splits)
  then have "raw \<in> set (filter (\<lambda>r. env_id r = i) (environments s))" by simp
  then show ?thesis by simp
qed

lemma hashSecretKey_environments: "environments (snd (hashSecretKey cfg key s)) = environments s"
  by (simp add: hashSecretKey_def split: option.splits)

lemma activateSecretKey_at_rest:
  assumes inv: "\<forall>r \<in> set (environments s). at_rest cfg k r"
  shows "\<forall>r \<in> set (environments (snd (activateSecretKey cfg i s))). at_rest cfg k r"
proof (cases "getRawById i s")
  case (Inl e)
  with inv show ?thesis by (simp add: activateSecretKey_def)
next
  case (Inr found)
  show ?thesis
  proof (cases found)
    case None
    with Inr inv show ?thesis by (simp add: activateSecretKey_def)
  next
    case (Some raw)
    with Inr have "raw \<in> set (environments s)" by (simp add: getRawById_in)
    with inv have ar: "at_rest cfg k raw" by simp
    show ?thesis
    proof (cases "decryptEnvironment cfg raw")
      case (Inl e)
      with Inr Some inv show ?thesis by (simp add: activateSecretKey_def)
    next
      case dec: (Inr decrypted)
      obtain hr sh where h: "hashSecretKey cfg (pending_secret_key decrypted) s = (hr, sh)"
        by (cases "hashSecretKey cfg (pending_secret_key decrypted) s")
      have esh: "environments sh = environments s"
        using hashSecretKey_environments [of cfg "pending_secret_key decrypted" s] h by simp
      show ?thesis
      proof (cases hr)
        case (Inl e)
        with Inr Some dec h esh inv show ?thesis by (simp add: activateSecretKey_def)
      next
        case hash: (Inr hv)
        have "\<forall>r \<in> set (environments (snd (knex_update (\<lambda>r. env_id r = i)
                  (\<lambda>r. r\<lparr>secret_key := pending_secret_key raw,
                         secret_key_iv := pending_secret_key_iv raw,
                         secret_key_tag := pending_secret_key_tag raw,
                         secret_key_hashed := hv,
                         pending_secret_key := None, pending_secret_key_iv := None,
                         pending_secret_key_tag := None\<rparr>) sh))). at_rest cfg k r"
          by (rule knex_update_keeps) (use inv esh ar in \<open>simp_all add: at_rest_promoted\<close>)
        with Inr Some dec h hash show ?thesis
          by (auto simp: activateSecretKey_def split: prod.splits sum.splits option.splits)
      qed
    qed
  qed
qed

lemma createEnvironment_at_rest:
  assumes mk: "master_key cfg = Some k" and inv: "\<forall>r \<in> set (environments s). at_rest cfg k r"
    and ok: "fst (createEnvironment cfg defaults accountId nm s) = Inr (Some created)"
  shows "\<forall>r \<in> set (environments (snd (createEnvironment cfg defaults accountId nm s))).
           at_rest cfg k r"
proof -
  define new where "new = defaults\<lparr>account_id := accountId, name := nm\<rparr>"
  define s1 where "s1 = s\<lparr>environments := environments s @ [new],
                          writes := writes s @ [environments s @ [new]]\<rparr>"
  have re: "reachable s"
    using ok by (auto simp: createEnvironment_def knex_insert_def split: if_splits)
  then have ins: "knex_insert defaults accountId nm s = (Inr [env_id defaults], s1)"
    by (simp add: knex_insert_def Let_def s1_def new_def)
  from ok ins obtain env where g: "getById cfg (env_id defaults) s1 = Inr (Some env)"
    by (auto simp: createEnvironment_def split: sum.splits option.splits)
  obtain hr s2 where h: "hashSecretKey cfg (secret_key env) s1 = (hr, s2)"
    by (cases "hashSecretKey cfg (secret_key env) s1")
  from ok ins g h obtain hash where hr: "hr = Inr hash"
    by (cases hr) (auto simp: createEnvironment_def)
  have e2: "environments s2 = environments s @ [new]"
    using hashSecretKey_environments [of cfg "secret_key env" s1] h by (simp add: s1_def)
  have re2: "reachable s2"
    using h re by (auto simp: hashSecretKey_def s1_def split: option.splits)
  define enc where "enc = encryptEnvironment cfg (env\<lparr>secret_key_hashed := hash\<rparr>)"
  have fin: "environments (snd (createEnvironment cfg defaults accountId nm s))
      = environments (snd (knex_update (\<lambda>r. env_id r = env_id defaults) (\<lambda>r. enc) s2))"
    using ins g h hr
    by (auto simp: createEnvironment_def Let_def enc_def split: prod.splits sum.splits)
  have "\<forall>r \<in> set (environments (snd (knex_update (\<lambda>r. env_id r = env_id defaults) (\<lambda>r. enc) s2))).
          r = enc \<or> r \<in> set (environments s)"
    using re2 by (auto simp: knex_update_def Let_def e2 new_def)
  with inv encryptEnvironment_at_rest [OF mk, of "env\<lparr>secret_key_hashed := hash\<rparr>"]
  show ?thesis
    unfolding fin enc_def by auto
qed

text \<open>
  What the other writes do. With a master key configured, encryption at rest is kept
  from call to call: when every stored row holds its secret key and its pending secret
  key as the cipher produced them (or not at all), so does every row after
  \<open>rotateKey\<close>, \<open>revertKey\<close> and \<open>activateKey\<close> of either type, and after a
  \<open>createEnvironment\<close> that returns the environment (its second write encrypts the row
  the store generated). The last write of a secret-key rotation stores the new pending
  key as the cipher output for it. What happens between the two writes of
  \<open>rotateSecretKey\<close> is not part of this.
\<close>

theorem encryption_at_rest_preserved:
  assumes "master_key cfg = Some k" and "\<forall>r \<in> set (environments s). at_rest cfg k r"
  shows "(\<forall>r \<in> set (environments (snd (rotateKey cfg fresh i type s))). at_rest cfg k r)
       \<and> (\<forall>r \<in> set (environments (snd (revertKey cfg i type s))). at_rest cfg k r)
       \<and> (\<forall>r \<in> set (environments (snd (activateKey cfg i type s))). at_rest cfg k r)
       \<and> (fst (createEnvironment cfg defaults accountId nm s) = Inr (Some created)
            \<longrightarrow> (\<forall>r \<in> set (environments (snd (createEnvironment cfg defaults accountId nm s))).
                   at_rest cfg k r))
       \<and> (getById cfg i s = Inr (Some env)
            \<longrightarrow> fst (rotateKey cfg fresh i ''secret'' s) = Inr (Some fresh)
              \<and> (\<forall>r \<in> set (environments (snd (rotateKey cfg fresh i ''secret'' s))).
                   env_id r = i \<longrightarrow>
                   sealed cfg k fresh (pending_secret_key r) (pending_secret_key_iv r)
                          (pending_secret_key_tag r)))"
proof (intro conjI impI)
  show "\<forall>r \<in> set (environments (snd (rotateKey cfg fresh i type s))). at_rest cfg k r"
    using rotateSecretKey_at_rest [OF assms] rotatePublicKey_at_rest [OF assms(2)] assms(2)
    by (simp add: rotateKey_def)
  show "\<forall>r \<in> set (environments (snd (revertKey cfg i type s))). at_rest cfg k r"
    using revertSecretKey_at_rest [OF assms(2)] revertPublicKey_at_rest [OF assms(2)] assms(2)
    by (simp add: revertKey_def)
  show "\<forall>r \<in> set (environments (snd (activateKey cfg i type s))). at_rest cfg k r"
    using activateSecretKey_at_rest [OF assms(2)] activatePublicKey_at_rest [OF assms(2)] assms(2)
    by (simp add: activateKey_def)
next
  assume "fst (createEnvironment cfg defaults accountId nm s) = Inr (Some created)"
  with assms show "\<forall>r \<in> set (environments (snd (createEnvironment cfg defaults accountId nm s))).
                   at_rest cfg k r"
    by (rule createEnvironment_at_rest)
next
  assume g: "getById cfg i s = Inr (Some env)"
  show "fst (rotateKey cfg fresh i ''secret'' s) = Inr (Some fresh)"
    by (simp add: rotateKey_def rotateSecretKey_result [OF g])
  have "sealed cfg k fresh
          (pending_secret_key (encryptEnvironment cfg (env\<lparr>pending_secret_key := Some fresh\<rparr>)))
          (pending_secret_key_iv (encryptEnvironment cfg (env\<lparr>pending_secret_key := Some fresh\<rparr>)))
          (pending_secret_key_tag (encryptEnvironment cfg (env\<lparr>pending_secret_key := Some fresh\<rparr>)))"
    using assms(1)
    by (auto simp: encryptEnvironment_def encrypt_secret_def encrypt_pending_def sealed_def
             split: option.splits prod.splits)
  then show "\<forall>r \<in> set (environments (snd (rotateKey cfg fresh i ''secret'' s))).
                   env_id r = i \<longrightarrow>
                   sealed cfg k fresh (pending_secret_key r) (pending_secret_key_iv r)
                          (pending_secret_key_tag r)"
    by (auto simp: rotateKey_def rotateSecretKey_result [OF g] dest!: set_map_const)
qed

text \<open>
  C2 at environment 1, with the master key \<open>''mk''\<close> configured: the first of the two
  writes of \<open>rotateSecretKey\<close> puts the new pending key \<open>''new''\<close> into the table as it
  is, with no vector and no tag; the second write replaces it by the cipher output
  \<open>''wen''\<close> with its vector and tag.
\<close>

theorem rotateSecretKey_first_write_is_plaintext:
  "master_key cloud_config = Some ''mk''
   \<and> fst (rotateKey cloud_config ''new'' 1 ''secret'' store7) = Inr (Some ''new'')
   \<and> map (\<lambda>w. map (\<lambda>r. (pending_secret_key r, pending_secret_key_iv r, pending_secret_key_tag r)) w)
         (writes (snd (rotateKey cloud_config ''new'' 1 ''secret'' store7)))
       = [[(Some ''new'', None, None), (None, None, None)],
          [(Some ''wen'', Some ''iv'', Some ''mknew''), (None, None, None)]]
   \<and> cipher_encrypt cloud_config ''mk'' ''new'' = (''wen'', ''iv'', ''mknew'')"
  by (simp add: rotateKey_def rotateSecretKey_def read_defs query_defs crypto_defs example_defs)

text \<open>
  The theorem at the example store: after a rotation, after the activation that
  follows, and after the creation of a third environment.
\<close>

theorem encryption_at_rest_preserved_witness:
  "master_key cloud_config = Some ''mk''
   \<and> list_all (at_rest cloud_config ''mk'') (environments store7)
   \<and> list_all (at_rest cloud_config ''mk'')
        (environments (snd (rotateKey cloud_config ''new'' 1 ''secret'' store7)))
   \<and> list_all (at_rest cloud_config ''mk'')
        (environments (snd (activateKey cloud_config 1 ''secret''
                             (snd (rotateKey cloud_config ''new'' 1 ''secret'' store7)))))
   \<and> fst (createEnvironment cloud_config
             (dev_row\<lparr>env_id := 3, secret_key := Some ''gen'', secret_key_iv := None,
                      secret_key_tag := None, secret_key_hashed := None\<rparr>) 7 ''staging'' store7)
       = Inr (Some (dev_row\<lparr>env_id := 3, name := ''staging'', secret_key := Some ''gen'',
                            secret_key_iv := Some ''iv'', secret_key_tag := Some ''mkgen'',
                            secret_key_hashed := Some ''#gen''\<rparr>))
   \<and> list_all (at_rest cloud_config ''mk'')
        (environments (snd (createEnvironment cloud_config
             (dev_row\<lparr>env_id := 3, secret_key := Some ''gen'', secret_key_iv := None,
                      secret_key_tag := None, secret_key_hashed := None\<rparr>) 7 ''staging'' store7)))"
proof -
  have mk: "master_key cloud_config = Some ''mk''"
    by (simp add: master_key_def cloud_config_def)
  have "sealed cloud_config ''mk'' ''old'' (Some ''dlo'') (Some ''iv'') (Some ''mkold'')"
    by (simp add: sealed_def example_defs)
  then have inv: "\<forall>r \<in> set (environments store7). at_rest cloud_config ''mk'' r"
    by (auto simp: at_rest_def store7_def dev_row_def prod_row_def)
  have created: "fst (createEnvironment cloud_config
             (dev_row\<lparr>env_id := 3, secret_key := Some ''gen'', secret_key_iv := None,
                      secret_key_tag := None, secret_key_hashed := None\<rparr>) 7 ''staging'' store7)
       = Inr (Some (dev_row\<lparr>env_id := 3, name := ''staging'', secret_key := Some ''gen'',
                            secret_key_iv := Some ''iv'', secret_key_tag := Some ''mkgen'',
                            secret_key_hashed := Some ''#gen''\<rparr>))"
    by (simp add: createEnvironment_def read_defs query_defs crypto_defs example_defs)
  note step1 = encryption_at_rest_preserved [OF mk inv, of "''new''" 1 "''secret''"
      "dev_row\<lparr>env_id := 3, secret_key := Some ''gen'', secret_key_iv := None,
              secret_key_tag := None, secret_key_hashed := None\<rparr>" 7 "''staging''"]
  then have inv1: "\<forall>r \<in> set (environments (snd (rotateKey cloud_config ''new'' 1 ''secret'' store7))).
                     at_rest cloud_config ''mk'' r"
    by blast
  note step2 = encryption_at_rest_preserved [OF mk inv1, of "''new''" 1 "''secret''"]
  from mk inv step1 step2 created show ?thesis
    by (simp add: list_all_iff)
qed

end
